theory Spec2Isabelle
  imports Complex_Main
begin

section \<open>Numbers, identifiers and height entries\<close>

text \<open>
  The engine is the \<^verbatim>\<open>Toast\<close> component, the \<^verbatim>\<open>Toaster\<close> subscription and
  \<^verbatim>\<open>useSonner\<close> of \<^verbatim>\<open>src/index.tsx\<close>. JavaScript numbers are taken as exact
  reals: heights, gaps, pointer coordinates and millisecond timestamps are \<open>real\<close>, with
  no rounding and no NaN. The one infinite value the code tests for, \<^verbatim>\<open>Infinity\<close>, is
  a constructor of its own in \<open>jsnumber\<close> below, and a division whose divisor may be zero
  is written out (\<open>js_div\<close>).
\<close>

text \<open>\<^verbatim>\<open>id: number | string\<close> of \<^verbatim>\<open>ToastT\<close>; \<^verbatim>\<open>===\<close> never equates a number and a string.\<close>

datatype toast_id = NumId int | StrId string

text \<open>\<^verbatim>\<open>HeightT\<close> of \<^verbatim>\<open>types.ts\<close>.\<close>

record HeightT =
  height :: real
  toastId :: toast_id
  position :: string

section \<open>Layout: heightIndex, toastsHeightBefore, offset\<close>

text \<open>\<^verbatim>\<open>Array.prototype.findIndex\<close>: the first index whose element satisfies the
  predicate, \<open>-1\<close> when there is none.\<close>

fun findIndex :: "('a \<Rightarrow> bool) \<Rightarrow> 'a list \<Rightarrow> int" where
  "findIndex p [] = - 1"
| "findIndex p (x # xs) =
     (if p x then 0
      else (let i = findIndex p xs in if i = - 1 then - 1 else i + 1))"

text \<open>\<^verbatim>\<open>n || 0\<close> on an integer: only \<open>0\<close> is falsy, so \<open>-1\<close> passes through.\<close>

definition or_zero :: "int \<Rightarrow> int" where
  "or_zero n = (if n = 0 then 0 else n)"

text \<open>\<^verbatim>\<open>heights.findIndex((height) => height.toastId === toast.id) || 0\<close>. The list is
  \<^verbatim>\<open>props.heights\<close> (the entries of the toast's position) in \<^verbatim>\<open>index.tsx\<close> and the
  module-level \<^verbatim>\<open>heights()\<close> in the second variant of the file; both run the same
  code on the list they are given.\<close>

definition heightIndex :: "HeightT list \<Rightarrow> toast_id \<Rightarrow> int" where
  "heightIndex heights ident = or_zero (findIndex (\<lambda>h. toastId h = ident) heights)"

text \<open>The loop of \<^verbatim>\<open>toastsHeightBefore\<close>:
  \<^verbatim>\<open>for (let i = 0; i < heights.length; i++) { if (i >= heightIndex()) break; total += heights[i].height; }\<close>\<close>

function toastsHeightBefore_loop :: "HeightT list \<Rightarrow> int \<Rightarrow> nat \<Rightarrow> real \<Rightarrow> real" where
  "toastsHeightBefore_loop heights hi i total_h =
     (if i < length heights then
        (if int i \<ge> hi then total_h
         else toastsHeightBefore_loop heights hi (i + 1) (total_h + height (heights ! i)))
      else total_h)"
  by pat_completeness auto
termination
  by (relation "measure (\<lambda>(heights, hi, i, total_h). length heights - i)") auto

declare toastsHeightBefore_loop.simps [simp del]

definition toastsHeightBefore :: "HeightT list \<Rightarrow> toast_id \<Rightarrow> real" where
  "toastsHeightBefore heights ident = toastsHeightBefore_loop heights (heightIndex heights ident) 0 0"

text \<open>\<^verbatim>\<open>offset = heightIndex() * gap + toastsHeightBefore()\<close>\<close>

definition offset :: "HeightT list \<Rightarrow> toast_id \<Rightarrow> real \<Rightarrow> real" where
  "offset heights ident gap =
     real_of_int (heightIndex heights ident) * gap + toastsHeightBefore heights ident"

section \<open>The Toast component: props and state\<close>

text \<open>\<^verbatim>\<open>duration?: number\<close> may be \<^verbatim>\<open>Infinity\<close>, which the timer tests for.\<close>

datatype jsnumber = Num real | Infinity

text \<open>\<^verbatim>\<open>remainingTime - elapsedTime\<close>; \<^verbatim>\<open>Infinity - x\<close> is \<^verbatim>\<open>Infinity\<close>.\<close>

fun minus_ms :: "jsnumber \<Rightarrow> real \<Rightarrow> jsnumber" where
  "minus_ms (Num r) e = Num (r - e)"
| "minus_ms Infinity e = Infinity"

datatype ToastTypes = Normal | Action | Success | Info | Warning | Error | Loading | Default

text \<open>The fields of \<^verbatim>\<open>ToastT\<close> that the engine reads. An optional field is an option,
  \<open>None\<close> being \<^verbatim>\<open>undefined\<close>. The two callbacks are opaque: \<open>onDismiss\<close> and
  \<open>onAutoClose\<close> say whether the caller supplied one, and every invocation is recorded
  in \<open>calls\<close> of the component state.\<close>

record ToastT =
  tid :: toast_id
  toast_type :: "ToastTypes option"
  dismissible :: "bool option"
  duration :: "jsnumber option"
  delete_flag :: "bool option"
  onDismiss :: bool
  onAutoClose :: bool
  toast_position :: "string option"

text \<open>\<^verbatim>\<open>ToastProps\<close>, with the signal of \<^verbatim>\<open>useIsDocumentHidden()\<close> beside them.
  \<open>position_prop\<close> and \<open>duration_prop\<close> are \<^verbatim>\<open>props.position\<close> and
  \<^verbatim>\<open>props.duration\<close>.\<close>

record ToastProps =
  toast :: ToastT
  index :: nat
  expanded :: bool
  interacting :: bool
  documentHidden :: bool
  gap :: real
  position_prop :: string
  duration_prop :: "jsnumber option"
  swipeDirections :: "string list option"

datatype axis = AxisX | AxisY

datatype call = OnDismiss | OnAutoClose

text \<open>The signals and mutable variables of one \<^verbatim>\<open>Toast\<close> instance. \<open>heights\<close> is the
  signal of the \<^verbatim>\<open>Toaster\<close> that the instance writes through \<^verbatim>\<open>setHeights\<close>;
  \<open>swipe_amount_x\<close> and \<open>swipe_amount_y\<close> are the CSS properties
  \<^verbatim>\<open>--swipe-amount-x\<close> and \<^verbatim>\<open>--swipe-amount-y\<close> of the element (\<open>None\<close> while
  unset); \<open>timeoutId\<close> is the pending auto-close timeout with the delay it was given;
  \<open>unmounts\<close> holds the delays of the pending \<^verbatim>\<open>removeToast\<close> timeouts.\<close>

record Toast =
  swipeDirection :: "axis option"
  swipeOutDirection :: "string option"
  mounted :: bool
  removed :: bool
  swiping :: bool
  swipeOut :: bool
  isSwiped :: bool
  offsetBeforeRemove :: real
  initialHeight :: real
  remainingTime :: jsnumber
  dragStartTime :: "real option"
  closeTimerStartTimeRef :: real
  lastCloseTimerStartTimeRef :: real
  pointerStartRef :: "(real \<times> real) option"
  swipe_amount_x :: "real option"
  swipe_amount_y :: "real option"
  timeoutId :: "jsnumber option"
  heights :: "HeightT list"
  calls :: "call list"
  unmounts :: "real list"

definition TOAST_LIFETIME :: real where "TOAST_LIFETIME = 4000"
definition GAP :: real where "GAP = 14"
definition SWIPE_THRESHOLD :: real where "SWIPE_THRESHOLD = 45"
definition TIME_BEFORE_UNMOUNT :: real where "TIME_BEFORE_UNMOUNT = 200"

text \<open>Truthiness of an optional boolean (\<^verbatim>\<open>props.toast.dismissible\<close>, \<^verbatim>\<open>toast.delete\<close>).\<close>

fun truthy :: "bool option \<Rightarrow> bool" where
  "truthy None = False"
| "truthy (Some b) = b"

text \<open>\<^verbatim>\<open>let remainingTime = toast.duration ?? durationFromToaster ?? TOAST_LIFETIME\<close>\<close>

definition initial_remainingTime :: "ToastProps \<Rightarrow> jsnumber" where
  "initial_remainingTime props =
     (case duration (toast props) of
        Some d \<Rightarrow> d
      | None \<Rightarrow> (case duration_prop props of Some d \<Rightarrow> d | None \<Rightarrow> Num TOAST_LIFETIME))"

text \<open>The state of a new instance, before any effect has run.\<close>

definition new_Toast :: "ToastProps \<Rightarrow> HeightT list \<Rightarrow> Toast" where
  "new_Toast props hs =
     \<lparr> swipeDirection = None, swipeOutDirection = None, mounted = False, removed = False,
       swiping = False, swipeOut = False, isSwiped = False, offsetBeforeRemove = 0,
       initialHeight = 0, remainingTime = initial_remainingTime props, dragStartTime = None,
       closeTimerStartTimeRef = 0, lastCloseTimerStartTimeRef = 0, pointerStartRef = None,
       swipe_amount_x = None, swipe_amount_y = None, timeoutId = None, heights = hs,
       calls = [], unmounts = [] \<rparr>"

definition isLoading :: "ToastProps \<Rightarrow> bool" where
  "isLoading props = (toast_type (toast props) = Some Loading)"

text \<open>\<^verbatim>\<open>heights={heights().filter((h) => h.position === toast.position)}\<close> of the
  \<^verbatim>\<open>Toaster\<close>: the list the instance sees as \<^verbatim>\<open>props.heights\<close>. A toast without a
  position of its own has \<^verbatim>\<open>toast.position\<close> undefined, which equals the position of no
  height entry.\<close>

definition props_heights :: "ToastProps \<Rightarrow> HeightT list \<Rightarrow> HeightT list" where
  "props_heights props hs = filter (\<lambda>h. Some (position h) = toast_position (toast props)) hs"

definition current_offset :: "ToastProps \<Rightarrow> Toast \<Rightarrow> real" where
  "current_offset props s = offset (props_heights props (heights s)) (tid (toast props)) (gap props)"

text \<open>\<^verbatim>\<open>'--offset': `${removed() ? offsetBeforeRemove() : offset()}px`\<close>\<close>

definition reported_offset :: "ToastProps \<Rightarrow> Toast \<Rightarrow> real" where
  "reported_offset props s = (if removed s then offsetBeforeRemove s else current_offset props s)"

text \<open>The effect created in \<^verbatim>\<open>onMount\<close>, which writes the measured height \<open>newHeight\<close>
  into the heights signal; it runs again when \<^verbatim>\<open>props.toast\<close> changes.\<close>

definition height_effect :: "real \<Rightarrow> ToastProps \<Rightarrow> Toast \<Rightarrow> Toast" where
  "height_effect newHeight props s =
     (let t = toast props;
          pos = (case toast_position t of Some p \<Rightarrow> p | None \<Rightarrow> position_prop props);
          alreadyExists = find (\<lambda>h. toastId h = tid t) (heights s)
      in s\<lparr> heights :=
              (if alreadyExists = None
               then \<lparr> height = newHeight, toastId = tid t, position = pos \<rparr> # heights s
               else map (\<lambda>h. if toastId h = tid t then h\<lparr> height := newHeight \<rparr> else h)
                      (heights s)) \<rparr>)"

text \<open>The two \<^verbatim>\<open>onMount\<close> callbacks; \<open>newHeight\<close> is what
  \<^verbatim>\<open>getBoundingClientRect().height\<close> measured.\<close>

definition onMount :: "real \<Rightarrow> ToastProps \<Rightarrow> Toast \<Rightarrow> Toast" where
  "onMount newHeight props s =
     height_effect newHeight props (s\<lparr> mounted := True, initialHeight := newHeight \<rparr>)"

definition deleteToast :: "ToastProps \<Rightarrow> Toast \<Rightarrow> Toast" where
  "deleteToast props s =
     s\<lparr> removed := True,
        offsetBeforeRemove := current_offset props s,
        heights := filter (\<lambda>h. toastId h \<noteq> tid (toast props)) (heights s),
        unmounts := unmounts s @ [TIME_BEFORE_UNMOUNT] \<rparr>"

text \<open>\<^verbatim>\<open>toast.onDismiss?.(toast)\<close> and \<^verbatim>\<open>toast.onAutoClose?.(toast)\<close>\<close>

definition call_onDismiss :: "ToastProps \<Rightarrow> Toast \<Rightarrow> Toast" where
  "call_onDismiss props s = (if onDismiss (toast props) then s\<lparr> calls := calls s @ [OnDismiss] \<rparr> else s)"

definition call_onAutoClose :: "ToastProps \<Rightarrow> Toast \<Rightarrow> Toast" where
  "call_onAutoClose props s =
     (if onAutoClose (toast props) then s\<lparr> calls := calls s @ [OnAutoClose] \<rparr> else s)"

section \<open>The timer\<close>

text \<open>\<open>now\<close> is what \<^verbatim>\<open>new Date().getTime()\<close> returns when the function runs.\<close>

definition pauseTimer :: "real \<Rightarrow> Toast \<Rightarrow> Toast" where
  "pauseTimer now s =
     (let s1 = (if lastCloseTimerStartTimeRef s < closeTimerStartTimeRef s
                then (let elapsedTime = now - closeTimerStartTimeRef s
                      in s\<lparr> remainingTime := minus_ms (remainingTime s) elapsedTime \<rparr>)
                else s)
      in s1\<lparr> lastCloseTimerStartTimeRef := now \<rparr>)"

text \<open>\<^verbatim>\<open>setTimeout(.., remainingTime)\<close> leaves a pending timeout that holds the delay it
  was given.\<close>

definition startTimer :: "real \<Rightarrow> Toast \<Rightarrow> Toast" where
  "startTimer now s =
     (if remainingTime s = Infinity then s
      else s\<lparr> closeTimerStartTimeRef := now, timeoutId := Some (remainingTime s) \<rparr>)"

text \<open>One run of the timer effect. The cleanup of the run before it
  (\<^verbatim>\<open>clearTimeout(timeoutId)\<close>) comes first, as the framework runs it.\<close>

definition timer_effect :: "real \<Rightarrow> ToastProps \<Rightarrow> Toast \<Rightarrow> Toast" where
  "timer_effect now props s =
     (let s0 = s\<lparr> timeoutId := None \<rparr>
      in if duration (toast props) = Some Infinity \<or> isLoading props then s0
         else if expanded props \<or> interacting props \<or> documentHidden props then pauseTimer now s0
         else startTimer now s0)"

text \<open>The callback given to \<^verbatim>\<open>setTimeout\<close> in \<^verbatim>\<open>startTimer\<close>. It runs only while
  its timeout is pending.\<close>

definition timeout_callback :: "ToastProps \<Rightarrow> Toast \<Rightarrow> Toast" where
  "timeout_callback props s =
     (case timeoutId s of
        None \<Rightarrow> s
      | Some delay \<Rightarrow> deleteToast props (call_onAutoClose props (s\<lparr> timeoutId := None \<rparr>)))"

text \<open>\<^verbatim>\<open>createEffect(() => { if (toast.delete) deleteToast(); })\<close>, run until it
  is settled. \<^verbatim>\<open>deleteToast\<close> runs inside the effect, so the effect depends on the
  memo \<^verbatim>\<open>offset\<close> that \<^verbatim>\<open>deleteToast\<close> reads. \<^verbatim>\<open>deleteToast\<close> then removes the
  height entry of the toast, and when this changes the value of the memo the framework
  runs the effect once more: \<^verbatim>\<open>deleteToast\<close> captures the new offset and sets a second
  \<^verbatim>\<open>removeToast\<close> timeout. The second run removes no entry, the memo keeps its value and
  the effect is settled. A run of the effect that a later change of the offset causes is
  a further event of a trace.\<close>

definition delete_effect :: "ToastProps \<Rightarrow> Toast \<Rightarrow> Toast" where
  "delete_effect props s =
     (if truthy (delete_flag (toast props)) then
        (let s1 = deleteToast props s
         in if current_offset props s1 = current_offset props s then s1
            else deleteToast props s1)
      else s)"

section \<open>The swipe gesture\<close>

text \<open>\<^verbatim>\<open>String.prototype.split\<close> with a one-character separator: a string with \<open>n\<close>
  separators gives \<open>n + 1\<close> parts, the empty string gives one empty part.\<close>

fun split_str :: "char \<Rightarrow> string \<Rightarrow> string list" where
  "split_str c [] = [[]]"
| "split_str c (x # xs) =
     (if x = c then [] # split_str c xs
      else (case split_str c xs of [] \<Rightarrow> [[x]] | w # ws \<Rightarrow> (x # w) # ws))"

text \<open>\<^verbatim>\<open>const [y, x] = position.split('-')\<close>: a missing part is \<^verbatim>\<open>undefined\<close>.\<close>

fun nth_opt :: "'a list \<Rightarrow> nat \<Rightarrow> 'a option" where
  "nth_opt [] n = None"
| "nth_opt (x # xs) 0 = Some x"
| "nth_opt (x # xs) (Suc n) = nth_opt xs n"

text \<open>\<^verbatim>\<open>if (y) directions.push(y)\<close>: \<^verbatim>\<open>undefined\<close> and the empty string are falsy. The
  cast \<^verbatim>\<open>as SwipeDirection\<close> does nothing at run time, so directions are strings.\<close>

definition push_if :: "string option \<Rightarrow> string list \<Rightarrow> string list" where
  "push_if part directions =
     (case part of None \<Rightarrow> directions
      | Some p \<Rightarrow> if p = [] then directions else directions @ [p])"

definition getDefaultSwipeDirections :: "string \<Rightarrow> string list" where
  "getDefaultSwipeDirections pos =
     (let parts = split_str (CHR ''-'') pos;
          y = nth_opt parts 0;
          x = nth_opt parts 1;
          directions = [];
          directions = push_if y directions;
          directions = push_if x directions
      in directions)"

record PointerEvent =
  clientX :: real
  clientY :: real
  targetIsButton :: bool

definition onDragEnd :: "Toast \<Rightarrow> Toast" where
  "onDragEnd s = s\<lparr> swiping := False, swipeDirection := None, pointerStartRef := None \<rparr>"

text \<open>\<open>now\<close> is the time of \<^verbatim>\<open>new Date()\<close>.\<close>

definition onPointerDown :: "PointerEvent \<Rightarrow> real \<Rightarrow> ToastProps \<Rightarrow> Toast \<Rightarrow> Toast" where
  "onPointerDown event now props s =
     (if isLoading props \<or> \<not> truthy (dismissible (toast props)) then s
      else (let s1 = s\<lparr> dragStartTime := Some now, offsetBeforeRemove := current_offset props s \<rparr>
            in if targetIsButton event then s1
               else s1\<lparr> swiping := True, pointerStartRef := Some (clientX event, clientY event) \<rparr>))"

text \<open>\<^verbatim>\<open>Number(style.getPropertyValue(..).replace('px', ''))\<close>: an unset property reads as
  the empty string, whose number is \<open>0\<close>.\<close>

definition css_number :: "real option \<Rightarrow> real" where
  "css_number v = (case v of None \<Rightarrow> 0 | Some r \<Rightarrow> r)"

text \<open>A quotient of two numbers as JavaScript computes it: a zero divisor gives an
  infinity or NaN, and NaN compares false.\<close>

datatype quotient = Quot real | PosInfinity | NegInfinity | NaN

definition js_div :: "real \<Rightarrow> real \<Rightarrow> quotient" where
  "js_div a b =
     (if b = 0 then (if a > 0 then PosInfinity else if a < 0 then NegInfinity else NaN)
      else Quot (a / b))"

fun gt :: "quotient \<Rightarrow> real \<Rightarrow> bool" where
  "gt (Quot q) c = (q > c)"
| "gt PosInfinity c = True"
| "gt NegInfinity c = False"
| "gt NaN c = False"

definition onPointerUp :: "real \<Rightarrow> ToastProps \<Rightarrow> Toast \<Rightarrow> Toast" where
  "onPointerUp now props s =
     (case dragStartTime s of
        None \<Rightarrow> s
      | Some dragStart \<Rightarrow>
          if swipeOut s \<or> \<not> truthy (dismissible (toast props)) then s
          else
            (let s1 = s\<lparr> pointerStartRef := None \<rparr>;
                 swipeAmountX = css_number (swipe_amount_x s1);
                 swipeAmountY = css_number (swipe_amount_y s1);
                 timeTaken = now - dragStart;
                 swipeAmount = (if swipeDirection s1 = Some AxisX then swipeAmountX else swipeAmountY);
                 velocity = js_div \<bar>swipeAmount\<bar> timeTaken
             in if \<bar>swipeAmount\<bar> \<ge> SWIPE_THRESHOLD \<or> gt velocity 0.11 then
                  (let s2 = s1\<lparr> offsetBeforeRemove := current_offset props s1 \<rparr>;
                       s3 = call_onDismiss props s2;
                       s4 = s3\<lparr> swipeOutDirection :=
                              Some (if swipeDirection s3 = Some AxisX
                                    then (if swipeAmountX > 0 then ''right'' else ''left'')
                                    else (if swipeAmountY > 0 then ''down'' else ''up'')) \<rparr>;
                       s5 = deleteToast props s4
                   in s5\<lparr> swipeOut := True \<rparr>)
                else s1\<lparr> swipe_amount_x := Some 0, swipe_amount_y := Some 0,
                         isSwiped := False, swiping := False, swipeDirection := None \<rparr>))"

definition getDampening :: "real \<Rightarrow> real" where
  "getDampening delta = (let factor = \<bar>delta\<bar> / 20 in 1 / (1.5 + factor))"

text \<open>The two branches of \<^verbatim>\<open>onPointerMove\<close> that fill \<^verbatim>\<open>swipeAmount = { x: 0, y: 0 }\<close>,
  given the locked axis; the result is the pair \<open>(x, y)\<close>.\<close>

definition swipe_amounts :: "axis option \<Rightarrow> string list \<Rightarrow> real \<Rightarrow> real \<Rightarrow> real \<times> real" where
  "swipe_amounts locked swipeDirs xDelta yDelta =
     (if locked = Some AxisY then
        (if ''top'' \<in> set swipeDirs \<or> ''bottom'' \<in> set swipeDirs then
           (if (''top'' \<in> set swipeDirs \<and> yDelta < 0) \<or> (''bottom'' \<in> set swipeDirs \<and> yDelta > 0)
            then (0, yDelta)
            else (let dampenedDelta = yDelta * getDampening yDelta
                  in (0, if \<bar>dampenedDelta\<bar> < \<bar>yDelta\<bar> then dampenedDelta else yDelta)))
         else (0, 0))
      else if locked = Some AxisX then
        (if ''left'' \<in> set swipeDirs \<or> ''right'' \<in> set swipeDirs then
           (if (''left'' \<in> set swipeDirs \<and> xDelta < 0) \<or> (''right'' \<in> set swipeDirs \<and> xDelta > 0)
            then (xDelta, 0)
            else (let dampenedDelta = xDelta * getDampening xDelta
                  in (if \<bar>dampenedDelta\<bar> < \<bar>xDelta\<bar> then dampenedDelta else xDelta, 0)))
         else (0, 0))
      else (0, 0))"

text \<open>\<open>isHighlighted\<close> is \<^verbatim>\<open>(window.getSelection()?.toString().length ?? 0) > 0\<close>.\<close>

definition onPointerMove :: "PointerEvent \<Rightarrow> bool \<Rightarrow> ToastProps \<Rightarrow> Toast \<Rightarrow> Toast" where
  "onPointerMove event isHighlighted props s =
     (case pointerStartRef s of
        None \<Rightarrow> s
      | Some (px, py) \<Rightarrow>
          if \<not> truthy (dismissible (toast props)) then s
          else if isHighlighted then s
          else
            (let yDelta = clientY event - py;
                 xDelta = clientX event - px;
                 swipeDirs = (case swipeDirections props of
                                Some ds \<Rightarrow> ds
                              | None \<Rightarrow> getDefaultSwipeDirections (position_prop props));
                 s1 = (if swipeDirection s = None \<and> (\<bar>xDelta\<bar> > 1 \<or> \<bar>yDelta\<bar> > 1)
                       then s\<lparr> swipeDirection := Some (if \<bar>xDelta\<bar> > \<bar>yDelta\<bar> then AxisX else AxisY) \<rparr>
                       else s);
                 swipeAmount = swipe_amounts (swipeDirection s1) swipeDirs xDelta yDelta;
                 s2 = (if \<bar>fst swipeAmount\<bar> > 0 \<or> \<bar>snd swipeAmount\<bar> > 0
                       then s1\<lparr> isSwiped := True \<rparr> else s1)
             in s2\<lparr> swipe_amount_x := Some (fst swipeAmount),
                     swipe_amount_y := Some (snd swipeAmount) \<rparr>))"

section \<open>Buttons\<close>

text \<open>The close button: \<^verbatim>\<open>deleteToast(); toast.onDismiss?.(toast);\<close>\<close>

definition close_click :: "ToastProps \<Rightarrow> Toast \<Rightarrow> Toast" where
  "close_click props s =
     (if isLoading props \<or> \<not> truthy (dismissible (toast props)) then s
      else call_onDismiss props (deleteToast props s))"

text \<open>The cancel and action buttons; their own \<^verbatim>\<open>onClick\<close> is the caller's code and
  \<open>defaultPrevented\<close> is what it left in the event.\<close>

definition cancel_click :: "ToastProps \<Rightarrow> Toast \<Rightarrow> Toast" where
  "cancel_click props s = (if \<not> truthy (dismissible (toast props)) then s else deleteToast props s)"

definition action_click :: "bool \<Rightarrow> ToastProps \<Rightarrow> Toast \<Rightarrow> Toast" where
  "action_click defaultPrevented props s = (if defaultPrevented then s else deleteToast props s)"

section \<open>Event traces of one instance\<close>

text \<open>What can happen to an instance. \<open>HeightEffect\<close> is a later run of the height
  effect, with the height measured at mount; \<open>SetHeights\<close> is any write to the heights
  signal by another toast.\<close>

datatype event =
    TimerEffect real
  | Timeout
  | DeleteEffect
  | Mount real
  | HeightEffect
  | PointerDown PointerEvent real
  | PointerMove PointerEvent bool
  | PointerUp real
  | DragEnd
  | CloseClick
  | CancelClick
  | ActionClick bool
  | SetHeights "HeightT list"

fun step :: "ToastProps \<Rightarrow> event \<Rightarrow> Toast \<Rightarrow> Toast" where
  "step props (TimerEffect now) s = timer_effect now props s"
| "step props Timeout s = timeout_callback props s"
| "step props DeleteEffect s = delete_effect props s"
| "step props (Mount newHeight) s = onMount newHeight props s"
| "step props HeightEffect s = height_effect (initialHeight s) props s"
| "step props (PointerDown ev now) s = onPointerDown ev now props s"
| "step props (PointerMove ev isHighlighted) s = onPointerMove ev isHighlighted props s"
| "step props (PointerUp now) s = onPointerUp now props s"
| "step props DragEnd s = onDragEnd s"
| "step props CloseClick s = close_click props s"
| "step props CancelClick s = cancel_click props s"
| "step props (ActionClick defaultPrevented) s = action_click defaultPrevented props s"
| "step props (SetHeights hs) s = s\<lparr> heights := hs \<rparr>"

text \<open>A trace pairs each event with the props in force when it arrives.\<close>

fun run :: "(ToastProps \<times> event) list \<Rightarrow> Toast \<Rightarrow> Toast" where
  "run [] s = s"
| "run ((props, e) # es) s = run es (step props e s)"

section \<open>A stack of three\<close>

text \<open>Three height entries of one position, heights 40, 60 and 50, in ledger order.\<close>

definition layout_example :: "HeightT list" where
  "layout_example =
     [\<lparr> height = 40, toastId = NumId 1, position = ''bottom-right'' \<rparr>,
      \<lparr> height = 60, toastId = NumId 2, position = ''bottom-right'' \<rparr>,
      \<lparr> height = 50, toastId = NumId 3, position = ''bottom-right'' \<rparr>]"

section \<open>The gesture as the specification words it\<close>

text \<open>\<^verbatim>\<open>SwipeDirection = 'top' | 'right' | 'bottom' | 'left'\<close> of \<^verbatim>\<open>types.ts\<close>.\<close>

definition is_SwipeDirection :: "string \<Rightarrow> bool" where
  "is_SwipeDirection d = (d \<in> set [''top'', ''right'', ''bottom'', ''left''])"

text \<open>The specification's dampening formula, \<open>delta / (1.5 + |delta| / 20)\<close>, to compare
  with \<open>delta * getDampening delta\<close> of the code.\<close>

definition spec_dampened :: "real \<Rightarrow> real" where
  "spec_dampened delta = delta / (1.5 + \<bar>delta\<bar> / 20)"

text \<open>The specification's "movement in an allowed direction": a movement by \<open>delta\<close>
  along the locked axis goes towards \<open>dir\<close>. A movement opposes every allowed
  direction when it goes towards none of them.\<close>

definition spec_moves_towards :: "axis \<Rightarrow> real \<Rightarrow> string \<Rightarrow> bool" where
  "spec_moves_towards a delta dir =
     ((a = AxisY \<and> dir = ''top'' \<and> delta < 0) \<or> (a = AxisY \<and> dir = ''bottom'' \<and> delta > 0) \<or>
      (a = AxisX \<and> dir = ''left'' \<and> delta < 0) \<or> (a = AxisX \<and> dir = ''right'' \<and> delta > 0))"

definition spec_opposes_all :: "axis \<Rightarrow> real \<Rightarrow> string list \<Rightarrow> bool" where
  "spec_opposes_all a delta dirs = list_all (\<lambda>dir. \<not> spec_moves_towards a delta dir) dirs"

section \<open>Example instances\<close>

text \<open>A dismissible toast with both callbacks, second in a stack at the bottom right.\<close>

definition example_toast :: ToastT where
  "example_toast =
     \<lparr> tid = NumId 2, toast_type = Some Success, dismissible = Some True, duration = None,
       delete_flag = None, onDismiss = True, onAutoClose = True,
       toast_position = Some ''bottom-right'' \<rparr>"

definition example_props :: ToastProps where
  "example_props =
     \<lparr> toast = example_toast, index = 1, expanded = False, interacting = False,
       documentHidden = False, gap = GAP, position_prop = ''bottom-right'',
       duration_prop = None, swipeDirections = None \<rparr>"

text \<open>A toast without a position of its own, in a \<^verbatim>\<open>Toaster\<close> anchored at the top centre.\<close>

definition center_props :: ToastProps where
  "center_props =
     example_props\<lparr> toast := example_toast\<lparr> toast_position := None \<rparr>,
                    position_prop := ''top-center'' \<rparr>"

text \<open>The example toast in a \<^verbatim>\<open>Toaster\<close> given the empty list of swipe directions.\<close>

definition unswipeable_props :: ToastProps where
  "unswipeable_props = example_props\<lparr> swipeDirections := Some [] \<rparr>"

text \<open>An instance mounted with a measured height of 60 into the heights \<open>hs\<close>, and the
  same after a pointer-down at \<open>(100, 100)\<close> at time \<open>5000\<close>.\<close>

definition mounted_Toast :: "ToastProps \<Rightarrow> HeightT list \<Rightarrow> Toast" where
  "mounted_Toast props hs = onMount 60 props (new_Toast props hs)"

definition pointer_at :: "real \<Rightarrow> real \<Rightarrow> PointerEvent" where
  "pointer_at x y = \<lparr> clientX = x, clientY = y, targetIsButton = False \<rparr>"

definition pressed :: "ToastProps \<Rightarrow> HeightT list \<Rightarrow> Toast" where
  "pressed props hs = onPointerDown (pointer_at 100 100) 5000 props (mounted_Toast props hs)"

text \<open>The pressed instance after the pointer has moved to \<open>(x, y)\<close>.\<close>

definition dragged :: "ToastProps \<Rightarrow> HeightT list \<Rightarrow> real \<Rightarrow> real \<Rightarrow> Toast" where
  "dragged props hs x y = onPointerMove (pointer_at x y) False props (pressed props hs)"

section \<open>Pause and resume schedules\<close>

text \<open>The timer is paused while any attention signal is set.\<close>

definition paused :: "ToastProps \<Rightarrow> bool" where
  "paused props = (expanded props \<or> interacting props \<or> documentHidden props)"

text \<open>The timer effect lets the timer run or pause: neither \<^verbatim>\<open>duration === Infinity\<close>
  nor \<^verbatim>\<open>isLoading()\<close> makes it return early.\<close>

definition timed :: "ToastProps \<Rightarrow> bool" where
  "timed props = (duration (toast props) \<noteq> Some Infinity \<and> \<not> isLoading props)"

text \<open>A schedule is a list of running periods \<open>(resume, pause)\<close>: the timer effect runs
  unpaused at \<open>resume\<close> and paused at \<open>pause\<close>.\<close>

fun cycle_events :: "ToastProps \<Rightarrow> ToastProps \<Rightarrow> (real \<times> real) list \<Rightarrow> (ToastProps \<times> event) list" where
  "cycle_events prun ppause [] = []"
| "cycle_events prun ppause ((resume, pause) # cs) =
     (prun, TimerEffect resume) # (ppause, TimerEffect pause) # cycle_events prun ppause cs"

text \<open>The time spent running in a schedule.\<close>

fun running_time :: "(real \<times> real) list \<Rightarrow> real" where
  "running_time [] = 0"
| "running_time ((resume, pause) # cs) = (pause - resume) + running_time cs"

text \<open>A schedule is spaced when each resume carries a later timestamp than the pause (or
  the last pause check) before it, and no pause precedes its resume.\<close>

fun spaced :: "real \<Rightarrow> (real \<times> real) list \<Rightarrow> bool" where
  "spaced before [] = True"
| "spaced before ((resume, pause) # cs) = (before < resume \<and> resume \<le> pause \<and> spaced pause cs)"

text \<open>The time of the last pause of a schedule.\<close>

fun last_pause :: "real \<Rightarrow> (real \<times> real) list \<Rightarrow> real" where
  "last_pause before [] = before"
| "last_pause before ((resume, pause) # cs) = last_pause pause cs"

text \<open>The example toast while the pointer hovers over the list, and with an infinite
  duration.\<close>

definition hovered_props :: ToastProps where
  "hovered_props = example_props\<lparr> expanded := True \<rparr>"

definition infinite_props :: ToastProps where
  "infinite_props = example_props\<lparr> toast := example_toast\<lparr> duration := Some Infinity \<rparr> \<rparr>"

definition loading_props :: ToastProps where
  "loading_props = example_props\<lparr> toast := example_toast\<lparr> toast_type := Some Loading \<rparr> \<rparr>"

text \<open>How often a callback was invoked, and how often an event occurs in a trace.\<close>

definition invocations :: "call \<Rightarrow> Toast \<Rightarrow> nat" where
  "invocations c s = count_list (calls s) c"

definition occurrences :: "event \<Rightarrow> (ToastProps \<times> event) list \<Rightarrow> nat" where
  "occurrences e es = count_list (map snd es) e"

text \<open>A trace in which the timer effect runs, the list is hovered and left again, and the
  scheduler is asked twice to run the timeout callback.\<close>

definition watched :: "ToastProps \<Rightarrow> (ToastProps \<times> event) list" where
  "watched props =
     [(props, Mount 60), (props, TimerEffect 1000), (props, Timeout),
      (props\<lparr> expanded := True \<rparr>, TimerEffect 2000), (props, TimerEffect 3000),
      (props, Timeout)]"

text \<open>Traces of the example toast: a swipe of 50 pixels with a second pointer-up after it;
  two clicks on the close button; the timer expiring and a click on the close button after
  it.\<close>

definition swipe_trace :: "(ToastProps \<times> event) list" where
  "swipe_trace =
     [(example_props, Mount 60), (example_props, PointerDown (pointer_at 100 100) 5000),
      (example_props, PointerMove (pointer_at 150 100) False), (example_props, PointerUp 6000),
      (example_props, PointerUp 6100)]"

definition double_close_trace :: "(ToastProps \<times> event) list" where
  "double_close_trace =
     [(example_props, Mount 60), (example_props, CloseClick), (example_props, CloseClick)]"

definition expire_then_close_trace :: "(ToastProps \<times> event) list" where
  "expire_then_close_trace =
     [(example_props, Mount 60), (example_props, TimerEffect 1000), (example_props, Timeout),
      (example_props, CloseClick)]"

text \<open>The example toast after \<^verbatim>\<open>toast.dismiss\<close> has set its delete flag.\<close>

definition dismissed_props :: ToastProps where
  "dismissed_props = example_props\<lparr> toast := example_toast\<lparr> delete_flag := Some True \<rparr> \<rparr>"

text \<open>Dismissals of the mounted example toast: by the delete flag; by a click on the close
  button, with a pointer-down on the toast during the grace period.\<close>

definition flag_dismissal :: "(ToastProps \<times> event) list" where
  "flag_dismissal = [(dismissed_props, DeleteEffect)]"

definition close_then_press :: "(ToastProps \<times> event) list" where
  "close_then_press =
     [(example_props, CloseClick), (example_props, PointerDown (pointer_at 100 100) 5000)]"

text \<open>The example toast runs from 10000 to 11000, is paused and resumed within the
  millisecond 11000, runs until 11500 and is paused until 12000; then its timeout expires.
  In the second schedule the resume comes one millisecond after the pause.\<close>

definition tied_resume :: "(ToastProps \<times> event) list" where
  "tied_resume =
     cycle_events example_props hovered_props [(10000, 11000), (11000, 11500)]
     @ [(example_props, TimerEffect 12000)]"

definition later_resume :: "(ToastProps \<times> event) list" where
  "later_resume =
     cycle_events example_props hovered_props [(10000, 11000), (11001, 11501)]
     @ [(example_props, TimerEffect 12000)]"

text \<open>The swipe may still contribute one \<open>onDismiss\<close> as long as \<open>swipeOut\<close> is unset.\<close>

definition dismiss_budget :: "Toast \<Rightarrow> nat" where
  "dismiss_budget s = invocations OnDismiss s + (if swipeOut s then 0 else 1)"

section \<open>The registry and its two subscribers\<close>

text \<open>The subscribers spread and reconcile whole toast objects, so here a toast is an
  object: a map from property names to values. Values that the subscribers never look
  into (callbacks, elements, nested objects) are references.\<close>

datatype jsval = JUndefined | JBool bool | JNumber real | JString string | JRef nat

type_synonym obj = "string \<rightharpoonup> jsval"

text \<open>Reading a property: a missing one reads as \<^verbatim>\<open>undefined\<close>.\<close>

definition property :: "obj \<Rightarrow> string \<Rightarrow> jsval" where
  "property ob k = (case ob k of None \<Rightarrow> JUndefined | Some v \<Rightarrow> v)"

fun truthy_val :: "jsval \<Rightarrow> bool" where
  "truthy_val JUndefined = False"
| "truthy_val (JBool b) = b"
| "truthy_val (JNumber n) = (n \<noteq> 0)"
| "truthy_val (JString s) = (s \<noteq> [])"
| "truthy_val (JRef r) = True"

text \<open>Object spread \<^verbatim>\<open>{ ...a, ...b }\<close>: every own property of \<open>b\<close> overrides.\<close>

definition spread :: "obj \<Rightarrow> obj \<Rightarrow> obj" where
  "spread a b = a ++ b"

text \<open>The subscriber of \<^verbatim>\<open>useSonner\<close>, as the update of \<^verbatim>\<open>activeToasts\<close> it queues with
  \<^verbatim>\<open>setTimeout\<close>; the queue runs the updates in the order of the notifications.\<close>

definition useSonner_subscriber :: "obj \<Rightarrow> obj list \<Rightarrow> obj list" where
  "useSonner_subscriber toast' toasts =
     (if truthy_val (property toast' ''dismiss'')
      then filter (\<lambda>t. property t ''id'' \<noteq> property toast' ''id'') toasts
      else (let indexOfExistingToast = findIndex (\<lambda>t. property t ''id'' = property toast' ''id'') toasts
            in if indexOfExistingToast \<noteq> - 1
               then take (nat indexOfExistingToast) toasts
                    @ [spread (toasts ! nat indexOfExistingToast) toast']
                    @ drop (nat indexOfExistingToast + 1) toasts
               else toast' # toasts))"

text \<open>\<^verbatim>\<open>reconcile(toast)\<close> of the store library, applied to the stored object: every
  property of the new object is written, and every property the new object lacks, or
  holds as \<^verbatim>\<open>undefined\<close>, is deleted.\<close>

definition reconcile :: "obj \<Rightarrow> obj \<Rightarrow> obj" where
  "reconcile target previous =
     (\<lambda>k. case target k of None \<Rightarrow> None | Some JUndefined \<Rightarrow> None | Some v \<Rightarrow> Some v)"

text \<open>The subscriber of the \<^verbatim>\<open>Toaster\<close>, as the update of \<^verbatim>\<open>toastsStore.toasts\<close>.\<close>

definition Toaster_subscriber :: "obj \<Rightarrow> obj list \<Rightarrow> obj list" where
  "Toaster_subscriber toast' toasts =
     (if truthy_val (property toast' ''dismiss'')
      then map (\<lambda>t. if property t ''id'' = property toast' ''id'' then t(''delete'' \<mapsto> JBool True) else t)
             toasts
      else (let changedIndex = findIndex (\<lambda>t. property t ''id'' = property toast' ''id'') toasts
            in if changedIndex \<noteq> - 1
               then toasts[nat changedIndex := reconcile toast' (toasts ! nat changedIndex)]
               else toast' # toasts))"

text \<open>The registry with its two subscribers: its own records, the list of each subscriber
  and the notifications each has received.\<close>

record sonner =
  records :: "obj list"
  activeToasts :: "obj list"
  toastsStore :: "obj list"
  useSonner_received :: "obj list"
  Toaster_received :: "obj list"

text \<open>Modelled from the spec: \<^verbatim>\<open>ToastState\<close> of \<^verbatim>\<open>state.ts\<close> is imported by
  \<^verbatim>\<open>index.tsx\<close> and is not among the sources. The specification (4.1) has
  \<^verbatim>\<open>publish(record)\<close> upsert by id, preserving unspecified fields from a prior version, and
  notify all subscribers with the resulting merged record, each receiving every event
  exactly once, in publish order.\<close>

definition publish :: "obj \<Rightarrow> sonner \<Rightarrow> sonner" where
  "publish record_p sys =
     (let existing = findIndex (\<lambda>t. property t ''id'' = property record_p ''id'') (records sys);
          merged = (if existing \<noteq> - 1 then spread (records sys ! nat existing) record_p
                    else record_p)
      in \<lparr> records = (if existing \<noteq> - 1 then (records sys)[nat existing := merged]
                       else records sys @ [merged]),
           activeToasts = useSonner_subscriber merged (activeToasts sys),
           toastsStore = Toaster_subscriber merged (toastsStore sys),
           useSonner_received = useSonner_received sys @ [merged],
           Toaster_received = Toaster_received sys @ [merged] \<rparr>)"

text \<open>The records of a list that carry the id of \<open>toast'\<close>.\<close>

definition with_id_of :: "obj \<Rightarrow> obj list \<Rightarrow> obj list" where
  "with_id_of toast' toasts = filter (\<lambda>t. property t ''id'' = property toast' ''id'') toasts"

text \<open>Two publishes of one id with different fields, and a registry that holds another
  toast.\<close>

definition first_publish :: obj where
  "first_publish = [''id'' \<mapsto> JNumber 7, ''title'' \<mapsto> JString ''Saving'',
                    ''type'' \<mapsto> JString ''loading'']"

definition second_publish :: obj where
  "second_publish = [''id'' \<mapsto> JNumber 7, ''type'' \<mapsto> JString ''success'',
                     ''duration'' \<mapsto> JNumber 2000]"

definition other_toast :: obj where
  "other_toast = [''id'' \<mapsto> JNumber 3, ''title'' \<mapsto> JString ''Hello'']"

definition one_toast_shown :: sonner where
  "one_toast_shown =
     \<lparr> records = [other_toast], activeToasts = [other_toast], toastsStore = [other_toast],
       useSonner_received = [other_toast], Toaster_received = [other_toast] \<rparr>"

section \<open>Facts about the layout\<close>

lemma findIndex_ge: "- 1 \<le> findIndex p xs"
  by (induction xs) (auto simp: Let_def)

lemma findIndex_none: "findIndex p xs = - 1 \<longleftrightarrow> (\<forall>x \<in> set xs. \<not> p x)"
proof (induction xs)
  case Nil
  show ?case by simp
next
  case (Cons x xs)
  have "- 1 \<le> findIndex p xs" by (rule findIndex_ge)
  then have "findIndex p xs + 1 \<noteq> - 1" by arith
  with Cons show ?case by (auto simp: Let_def)
qed

lemma findIndex_first:
  "k < length xs \<Longrightarrow> p (xs ! k) \<Longrightarrow> (\<forall>j<k. \<not> p (xs ! j)) \<Longrightarrow> findIndex p xs = int k"
proof (induction xs arbitrary: k)
  case Nil
  then show ?case by simp
next
  case (Cons x xs)
  show ?case
  proof (cases k)
    case 0
    with Cons.prems show ?thesis by simp
  next
    case (Suc m)
    from Cons.prems Suc have nx: "\<not> p x" by auto
    from Cons.prems Suc have m: "m < length xs" "p (xs ! m)" by auto
    from Cons.prems Suc have "\<forall>j<m. \<not> p (xs ! j)" by auto
    with m have "findIndex p xs = int m" by (rule Cons.IH)
    with nx Suc show ?thesis by (simp add: Let_def)
  qed
qed

lemma loop_stops: "hi \<le> int i \<Longrightarrow> toastsHeightBefore_loop hs hi i total_h = total_h"
  by (subst toastsHeightBefore_loop.simps) simp



lemma offset_absent:
  assumes "\<forall>h \<in> set hs. toastId h \<noteq> ident"
  shows "heightIndex hs ident = - 1" and "offset hs ident g = - g"
proof -
  have "findIndex (\<lambda>h. toastId h = ident) hs = - 1"
    using assms by (simp add: findIndex_none)
  then show hi: "heightIndex hs ident = - 1"
    by (simp add: heightIndex_def or_zero_def)
  have "toastsHeightBefore hs ident = 0"
    unfolding toastsHeightBefore_def hi by (rule loop_stops) simp
  with hi show "offset hs ident g = - g" by (simp add: offset_def)
qed


section \<open>Facts about the gesture\<close>

lemma split_str_no_sep: "c \<notin> set x \<Longrightarrow> split_str c x = [x]"
  by (induction x) auto

lemma split_str_sep: "c \<notin> set y \<Longrightarrow> split_str c (y @ c # x) = y # split_str c x"
  by (induction y) auto

lemma default_directions_of_anchors:
  assumes "y \<noteq> []" and "CHR ''-'' \<notin> set y" and "x \<noteq> []" and "CHR ''-'' \<notin> set x"
  shows "getDefaultSwipeDirections (y @ ''-'' @ x) = [y, x]"
  using assms
  by (simp add: getDefaultSwipeDirections_def split_str_sep split_str_no_sep push_if_def)

lemma default_directions_center:
  "getDefaultSwipeDirections ''top-center'' = [''top'', ''center'']"
  "getDefaultSwipeDirections ''bottom-center'' = [''bottom'', ''center'']"
  by (simp_all add: getDefaultSwipeDirections_def push_if_def)

lemma dampening_eq: "d * getDampening d = spec_dampened d"
  by (simp add: getDampening_def spec_dampened_def Let_def)

lemma dampening_range: "0 < getDampening d" "getDampening d < 1"
proof -
  have "1 < 1.5 + \<bar>d\<bar> / 20" by simp
  then show "0 < getDampening d" "getDampening d < 1"
    by (simp_all add: getDampening_def Let_def)
qed

lemma keep_smaller_le: "\<bar>if \<bar>a\<bar> < \<bar>d\<bar> then a else d\<bar> \<le> \<bar>d :: real\<bar>"
  by (cases "\<bar>a\<bar> < \<bar>d\<bar>") simp_all

lemma swipe_amounts_le:
  "\<bar>fst (swipe_amounts l ds xd yd)\<bar> \<le> \<bar>xd\<bar>" "\<bar>snd (swipe_amounts l ds xd yd)\<bar> \<le> \<bar>yd\<bar>"
  unfolding swipe_amounts_def Let_def
  by (simp_all only: keep_smaller_le fst_conv snd_conv abs_zero abs_ge_zero order_refl
      if_True if_False simp_thms split: if_split)

lemma swipe_amounts_dampened_y:
  assumes "''top'' \<in> set ds \<or> ''bottom'' \<in> set ds"
    and "\<not> (''top'' \<in> set ds \<and> yd < 0)" and "\<not> (''bottom'' \<in> set ds \<and> yd > 0)"
  shows "snd (swipe_amounts (Some AxisY) ds xd yd) =
           (if \<bar>spec_dampened yd\<bar> < \<bar>yd\<bar> then spec_dampened yd else yd)"
  using assms unfolding swipe_amounts_def Let_def dampening_eq
  by (simp only: if_True if_False simp_thms fst_conv snd_conv axis.simps option.simps)

lemma swipe_amounts_dampened_x:
  assumes "''left'' \<in> set ds \<or> ''right'' \<in> set ds"
    and "\<not> (''left'' \<in> set ds \<and> xd < 0)" and "\<not> (''right'' \<in> set ds \<and> xd > 0)"
  shows "fst (swipe_amounts (Some AxisX) ds xd yd) =
           (if \<bar>spec_dampened xd\<bar> < \<bar>xd\<bar> then spec_dampened xd else xd)"
  using assms unfolding swipe_amounts_def Let_def dampening_eq
  by (simp only: if_True if_False simp_thms fst_conv snd_conv axis.simps option.simps)

lemma swipe_amounts_no_direction:
  "''top'' \<notin> set ds \<Longrightarrow> ''bottom'' \<notin> set ds \<Longrightarrow> snd (swipe_amounts l ds xd yd) = 0"
  "''left'' \<notin> set ds \<Longrightarrow> ''right'' \<notin> set ds \<Longrightarrow> fst (swipe_amounts l ds xd yd) = 0"
  by (simp_all add: swipe_amounts_def Let_def)

text \<open>What a pointer-move that passes the guards writes to the two CSS properties.\<close>

lemma onPointerMove_amounts:
  assumes "pointerStartRef s = Some (px, py)" and "truthy (dismissible (toast props))" and "\<not> hl"
    and "dirs = (case swipeDirections props of Some ds \<Rightarrow> ds
                 | None \<Rightarrow> getDefaultSwipeDirections (position_prop props))"
    and "s' = onPointerMove ev hl props s"
  shows "swipe_amount_x s' =
           Some (fst (swipe_amounts (swipeDirection s') dirs (clientX ev - px) (clientY ev - py)))"
    and "swipe_amount_y s' =
           Some (snd (swipe_amounts (swipeDirection s') dirs (clientX ev - px) (clientY ev - py)))"
  using assms by (simp_all add: onPointerMove_def Let_def)

text \<open>The example instances, evaluated.\<close>

lemma example_props_eval:
  "example_props =
     \<lparr> toast = \<lparr> tid = NumId 2, toast_type = Some Success, dismissible = Some True,
                 duration = None, delete_flag = None, onDismiss = True, onAutoClose = True,
                 toast_position = Some ''bottom-right'' \<rparr>,
       index = 1, expanded = False, interacting = False, documentHidden = False, gap = 14,
       position_prop = ''bottom-right'', duration_prop = None, swipeDirections = None \<rparr>"
  by (simp add: example_props_def example_toast_def GAP_def)

lemma center_props_eval:
  "center_props =
     \<lparr> toast = \<lparr> tid = NumId 2, toast_type = Some Success, dismissible = Some True,
                 duration = None, delete_flag = None, onDismiss = True, onAutoClose = True,
                 toast_position = None \<rparr>,
       index = 1, expanded = False, interacting = False, documentHidden = False, gap = 14,
       position_prop = ''top-center'', duration_prop = None, swipeDirections = None \<rparr>"
  by (simp add: center_props_def example_props_def example_toast_def GAP_def)

lemma filter_layout_example:
  "filter (\<lambda>h. position h = ''bottom-right'') layout_example = layout_example"
  by (simp add: layout_example_def)

lemma offset_layout_example:
  "offset layout_example (NumId 2) 14 = 54"
  by (simp add: layout_example_def offset_def heightIndex_def or_zero_def
      toastsHeightBefore_def toastsHeightBefore_loop.simps)

lemma mounted_example_eval:
  "mounted_Toast example_props layout_example =
     \<lparr> swipeDirection = None, swipeOutDirection = None, mounted = True, removed = False,
       swiping = False, swipeOut = False, isSwiped = False, offsetBeforeRemove = 0,
       initialHeight = 60, remainingTime = Num 4000, dragStartTime = None,
       closeTimerStartTimeRef = 0, lastCloseTimerStartTimeRef = 0, pointerStartRef = None,
       swipe_amount_x = None, swipe_amount_y = None, timeoutId = None,
       heights = layout_example, calls = [], unmounts = [] \<rparr>"
  by (simp add: mounted_Toast_def onMount_def height_effect_def new_Toast_def Let_def
      example_props_eval initial_remainingTime_def TOAST_LIFETIME_def layout_example_def)

lemma pressed_example_eval:
  "pressed example_props layout_example =
     \<lparr> swipeDirection = None, swipeOutDirection = None, mounted = True, removed = False,
       swiping = True, swipeOut = False, isSwiped = False, offsetBeforeRemove = 54,
       initialHeight = 60, remainingTime = Num 4000, dragStartTime = Some 5000,
       closeTimerStartTimeRef = 0, lastCloseTimerStartTimeRef = 0,
       pointerStartRef = Some (100, 100), swipe_amount_x = None, swipe_amount_y = None,
       timeoutId = None, heights = layout_example, calls = [], unmounts = [] \<rparr>"
  unfolding pressed_def mounted_example_eval
  by (simp add: onPointerDown_def isLoading_def pointer_at_def
      current_offset_def props_heights_def example_props_eval filter_layout_example
      offset_layout_example)

lemma pressed_center_eval:
  "pressed center_props [] =
     \<lparr> swipeDirection = None, swipeOutDirection = None, mounted = True, removed = False,
       swiping = True, swipeOut = False, isSwiped = False, offsetBeforeRemove = - 14,
       initialHeight = 60, remainingTime = Num 4000, dragStartTime = Some 5000,
       closeTimerStartTimeRef = 0, lastCloseTimerStartTimeRef = 0,
       pointerStartRef = Some (100, 100), swipe_amount_x = None, swipe_amount_y = None,
       timeoutId = None,
       heights = [\<lparr> height = 60, toastId = NumId 2, position = ''top-center'' \<rparr>],
       calls = [], unmounts = [] \<rparr>"
  by (simp add: pressed_def mounted_Toast_def onMount_def height_effect_def new_Toast_def
      onPointerDown_def isLoading_def center_props_eval Let_def pointer_at_def
      current_offset_def props_heights_def offset_def heightIndex_def or_zero_def
      toastsHeightBefore_def toastsHeightBefore_loop.simps initial_remainingTime_def
      TOAST_LIFETIME_def)

lemma pressed_center_props:
  "pointerStartRef (pressed center_props []) = Some (100, 100)"
  "swipeDirection (pressed center_props []) = None"
  unfolding pressed_center_eval by simp_all

lemma center_props_fields:
  "truthy (dismissible (toast center_props))"
  "swipeDirections center_props = None"
  "position_prop center_props = ''top-center''"
  by (simp_all add: center_props_eval)

lemma unswipeable_props_eval:
  "unswipeable_props =
     \<lparr> toast = \<lparr> tid = NumId 2, toast_type = Some Success, dismissible = Some True,
                 duration = None, delete_flag = None, onDismiss = True, onAutoClose = True,
                 toast_position = Some ''bottom-right'' \<rparr>,
       index = 1, expanded = False, interacting = False, documentHidden = False, gap = 14,
       position_prop = ''bottom-right'', duration_prop = None, swipeDirections = Some [] \<rparr>"
  by (simp add: unswipeable_props_def example_props_def example_toast_def GAP_def)

lemma unswipeable_props_fields:
  "truthy (dismissible (toast unswipeable_props))"
  "swipeDirections unswipeable_props = Some []"
  by (simp_all add: unswipeable_props_eval)

lemma pressed_unswipeable_props:
  "pointerStartRef (pressed unswipeable_props []) = Some (100, 100)"
  "swipeDirection (pressed unswipeable_props []) = None"
  by (simp_all add: pressed_def mounted_Toast_def onMount_def height_effect_def new_Toast_def
      onPointerDown_def isLoading_def unswipeable_props_eval Let_def pointer_at_def)

lemma pressed_example_props:
  "pointerStartRef (pressed example_props layout_example) = Some (100, 100)"
  "swipeDirection (pressed example_props layout_example) = None"
  unfolding pressed_example_eval by simp_all

lemma example_props_fields:
  "truthy (dismissible (toast example_props))"
  "swipeDirections example_props = None"
  "position_prop example_props = ''bottom-right''"
  by (simp_all add: example_props_eval)

section \<open>Facts about pointer-up\<close>

lemma deleteToast_fields:
  "removed (deleteToast props s) = True"
  "offsetBeforeRemove (deleteToast props s) = current_offset props s"
  "calls (deleteToast props s) = calls s"
  "unmounts (deleteToast props s) = unmounts s @ [TIME_BEFORE_UNMOUNT]"
  "swipeOut (deleteToast props s) = swipeOut s"
  "timeoutId (deleteToast props s) = timeoutId s"
  "remainingTime (deleteToast props s) = remainingTime s"
  "heights (deleteToast props s) = filter (\<lambda>h. toastId h \<noteq> tid (toast props)) (heights s)"
  by (simp_all add: deleteToast_def)

lemma call_onDismiss_fields:
  "calls (call_onDismiss props s) = calls s @ (if onDismiss (toast props) then [OnDismiss] else [])"
  "removed (call_onDismiss props s) = removed s"
  "swipeOut (call_onDismiss props s) = swipeOut s"
  "unmounts (call_onDismiss props s) = unmounts s"
  "timeoutId (call_onDismiss props s) = timeoutId s"
  "remainingTime (call_onDismiss props s) = remainingTime s"
  "offsetBeforeRemove (call_onDismiss props s) = offsetBeforeRemove s"
  "heights (call_onDismiss props s) = heights s"
  "swipeDirection (call_onDismiss props s) = swipeDirection s"
  by (simp_all add: call_onDismiss_def)

lemma call_onAutoClose_fields:
  "calls (call_onAutoClose props s) = calls s @ (if onAutoClose (toast props) then [OnAutoClose] else [])"
  "removed (call_onAutoClose props s) = removed s"
  "swipeOut (call_onAutoClose props s) = swipeOut s"
  "unmounts (call_onAutoClose props s) = unmounts s"
  "timeoutId (call_onAutoClose props s) = timeoutId s"
  "remainingTime (call_onAutoClose props s) = remainingTime s"
  "offsetBeforeRemove (call_onAutoClose props s) = offsetBeforeRemove s"
  "heights (call_onAutoClose props s) = heights s"
  by (simp_all add: call_onAutoClose_def)

text \<open>Pointer-up past its guards: the two outcomes.\<close>

lemma onPointerUp_commit:
  assumes "dragStartTime s = Some t0" and "truthy (dismissible (toast props))" and "\<not> swipeOut s"
    and "amount = (if swipeDirection s = Some AxisX then css_number (swipe_amount_x s)
                   else css_number (swipe_amount_y s))"
    and "\<bar>amount\<bar> \<ge> SWIPE_THRESHOLD \<or> gt (js_div \<bar>amount\<bar> (now - t0)) 0.11"
  shows "swipeOut (onPointerUp now props s)"
    and "removed (onPointerUp now props s)"
    and "calls (onPointerUp now props s) =
           calls s @ (if onDismiss (toast props) then [OnDismiss] else [])"
    and "unmounts (onPointerUp now props s) = unmounts s @ [TIME_BEFORE_UNMOUNT]"
  using assms
  by (cases "swipeDirection s = Some AxisX";
      simp add: onPointerUp_def Let_def deleteToast_fields call_onDismiss_fields)+

lemma onPointerUp_snap_back:
  assumes "dragStartTime s = Some t0" and "truthy (dismissible (toast props))" and "\<not> swipeOut s"
    and "amount = (if swipeDirection s = Some AxisX then css_number (swipe_amount_x s)
                   else css_number (swipe_amount_y s))"
    and "\<not> (\<bar>amount\<bar> \<ge> SWIPE_THRESHOLD \<or> gt (js_div \<bar>amount\<bar> (now - t0)) 0.11)"
  shows "onPointerUp now props s =
           s\<lparr> pointerStartRef := None, swipe_amount_x := Some 0, swipe_amount_y := Some 0,
              isSwiped := False, swiping := False, swipeDirection := None \<rparr>"
  using assms by (cases "swipeDirection s = Some AxisX"; simp add: onPointerUp_def Let_def)

lemma dragged_example_50:
  "dragged example_props layout_example 150 100 =
     \<lparr> swipeDirection = Some AxisX, swipeOutDirection = None, mounted = True, removed = False,
       swiping = True, swipeOut = False, isSwiped = True, offsetBeforeRemove = 54,
       initialHeight = 60, remainingTime = Num 4000, dragStartTime = Some 5000,
       closeTimerStartTimeRef = 0, lastCloseTimerStartTimeRef = 0,
       pointerStartRef = Some (100, 100), swipe_amount_x = Some 50, swipe_amount_y = Some 0,
       timeoutId = None, heights = layout_example, calls = [], unmounts = [] \<rparr>"
  unfolding dragged_def pressed_example_eval
  by (simp add: onPointerMove_def Let_def pointer_at_def example_props_fields
      getDefaultSwipeDirections_def push_if_def swipe_amounts_def)

lemma dragged_example_20:
  "dragged example_props layout_example 120 100 =
     \<lparr> swipeDirection = Some AxisX, swipeOutDirection = None, mounted = True, removed = False,
       swiping = True, swipeOut = False, isSwiped = True, offsetBeforeRemove = 54,
       initialHeight = 60, remainingTime = Num 4000, dragStartTime = Some 5000,
       closeTimerStartTimeRef = 0, lastCloseTimerStartTimeRef = 0,
       pointerStartRef = Some (100, 100), swipe_amount_x = Some 20, swipe_amount_y = Some 0,
       timeoutId = None, heights = layout_example, calls = [], unmounts = [] \<rparr>"
  unfolding dragged_def pressed_example_eval
  by (simp add: onPointerMove_def Let_def pointer_at_def example_props_fields
      getDefaultSwipeDirections_def push_if_def swipe_amounts_def)

section \<open>Facts about the timer\<close>

lemma pauseTimer_fields:
  "timeoutId (pauseTimer now s) = timeoutId s"
  "calls (pauseTimer now s) = calls s"
  "lastCloseTimerStartTimeRef (pauseTimer now s) = now"
  "closeTimerStartTimeRef (pauseTimer now s) = closeTimerStartTimeRef s"
  "removed (pauseTimer now s) = removed s"
  "offsetBeforeRemove (pauseTimer now s) = offsetBeforeRemove s"
  "swipeOut (pauseTimer now s) = swipeOut s"
  by (simp_all add: pauseTimer_def Let_def)

lemma pauseTimer_remaining:
  "remainingTime (pauseTimer now s) =
     (if lastCloseTimerStartTimeRef s < closeTimerStartTimeRef s
      then minus_ms (remainingTime s) (now - closeTimerStartTimeRef s)
      else remainingTime s)"
  by (simp add: pauseTimer_def Let_def)

lemma pauseTimer_Infinity: "remainingTime s = Infinity \<Longrightarrow> remainingTime (pauseTimer now s) = Infinity"
  by (simp add: pauseTimer_remaining)

lemma startTimer_fields:
  "calls (startTimer now s) = calls s"
  "remainingTime (startTimer now s) = remainingTime s"
  "lastCloseTimerStartTimeRef (startTimer now s) = lastCloseTimerStartTimeRef s"
  "removed (startTimer now s) = removed s"
  "offsetBeforeRemove (startTimer now s) = offsetBeforeRemove s"
  "swipeOut (startTimer now s) = swipeOut s"
  by (simp_all add: startTimer_def)

lemma startTimer_Infinity: "remainingTime s = Infinity \<Longrightarrow> startTimer now s = s"
  by (simp add: startTimer_def)

lemma startTimer_Num:
  "remainingTime s = Num d \<Longrightarrow>
   startTimer now s = s\<lparr> closeTimerStartTimeRef := now, timeoutId := Some (Num d) \<rparr>"
  by (simp add: startTimer_def)

lemma timer_effect_fields:
  "calls (timer_effect now props s) = calls s"
  "removed (timer_effect now props s) = removed s"
  "offsetBeforeRemove (timer_effect now props s) = offsetBeforeRemove s"
  "swipeOut (timer_effect now props s) = swipeOut s"
  by (simp_all add: timer_effect_def Let_def pauseTimer_fields startTimer_fields)

lemma timer_effect_untimed:
  "\<not> timed props \<Longrightarrow> timer_effect now props s = s\<lparr> timeoutId := None \<rparr>"
  by (auto simp: timer_effect_def timed_def Let_def)

lemma timer_effect_paused:
  "timed props \<Longrightarrow> paused props \<Longrightarrow>
   timer_effect now props s = pauseTimer now (s\<lparr> timeoutId := None \<rparr>)"
  by (auto simp: timer_effect_def timed_def paused_def Let_def)

lemma timer_effect_running:
  "timed props \<Longrightarrow> \<not> paused props \<Longrightarrow>
   timer_effect now props s = startTimer now (s\<lparr> timeoutId := None \<rparr>)"
  by (auto simp: timer_effect_def timed_def paused_def Let_def)

lemma timer_effect_Infinity:
  assumes "remainingTime s = Infinity"
  shows "remainingTime (timer_effect now props s) = Infinity"
    and "timeoutId (timer_effect now props s) = None"
proof -
  consider "\<not> timed props" | "timed props" "paused props" | "timed props" "\<not> paused props"
    by blast
  then have "remainingTime (timer_effect now props s) = Infinity
      \<and> timeoutId (timer_effect now props s) = None"
  proof cases
    case 1
    then show ?thesis using assms by (simp add: timer_effect_untimed)
  next
    case 2
    then show ?thesis using assms
      by (simp add: timer_effect_paused pauseTimer_fields pauseTimer_remaining)
  next
    case 3
    then show ?thesis using assms by (simp add: timer_effect_running startTimer_Infinity)
  qed
  then show "remainingTime (timer_effect now props s) = Infinity"
    and "timeoutId (timer_effect now props s) = None" by simp_all
qed

lemma timer_effect_scheduled:
  assumes "timeoutId (timer_effect now props s) = Some delay"
  shows "remainingTime (timer_effect now props s) = delay" and "delay \<noteq> Infinity"
    and "timed props" and "\<not> paused props"
proof -
  have t: "timed props"
  proof (rule ccontr)
    assume "\<not> timed props"
    then show False using assms by (simp add: timer_effect_untimed)
  qed
  have p: "\<not> paused props"
  proof
    assume "paused props"
    with t show False using assms by (simp add: timer_effect_paused pauseTimer_fields)
  qed
  from t p have e: "timer_effect now props s = startTimer now (s\<lparr> timeoutId := None \<rparr>)"
    by (rule timer_effect_running)
  have both: "remainingTime (timer_effect now props s) = delay \<and> delay \<noteq> Infinity"
  proof (cases "remainingTime s")
    case (Num d)
    with e assms show ?thesis by (auto simp: startTimer_Num)
  next
    case Infinity
    with e assms show ?thesis by (simp add: startTimer_Infinity)
  qed
  then show "remainingTime (timer_effect now props s) = delay" and "delay \<noteq> Infinity"
    by simp_all
  from t p show "timed props" and "\<not> paused props" .
qed

text \<open>One running period: a resume at \<open>r\<close>, later than the last pause check, and the pause
  at \<open>p\<close> that ends it.\<close>

lemma resume_then_pause:
  assumes "timed prun" and "\<not> paused prun" and "timed ppause" and "paused ppause"
    and "remainingTime s = Num d" and "lastCloseTimerStartTimeRef s < r"
    and "s' = timer_effect p ppause (timer_effect r prun s)"
  shows "remainingTime s' = Num (d - (p - r))" and "lastCloseTimerStartTimeRef s' = p"
    and "timeoutId s' = None" and "calls s' = calls s"
proof -
  have run: "timer_effect r prun s = s\<lparr> closeTimerStartTimeRef := r, timeoutId := Some (Num d) \<rparr>"
    using assms(1,2,5) by (simp add: timer_effect_running startTimer_Num)
  have s': "s' = pauseTimer p (s\<lparr> closeTimerStartTimeRef := r, timeoutId := None \<rparr>)"
    unfolding assms(7) run using assms(3,4) by (simp add: timer_effect_paused)
  show "remainingTime s' = Num (d - (p - r))"
    unfolding s' using assms(5,6) by (simp add: pauseTimer_remaining)
  show "lastCloseTimerStartTimeRef s' = p" "timeoutId s' = None" "calls s' = calls s"
    unfolding s' by (simp_all add: pauseTimer_fields)
qed

lemma run_append: "run (es @ fs) s = run fs (run es s)"
  by (induction es arbitrary: s) auto

lemma run_cycles:
  assumes "timed prun" and "\<not> paused prun" and "timed ppause" and "paused ppause"
  shows "remainingTime s = Num d \<Longrightarrow> spaced (lastCloseTimerStartTimeRef s) cs \<Longrightarrow>
     remainingTime (run (cycle_events prun ppause cs) s) = Num (d - running_time cs)
     \<and> lastCloseTimerStartTimeRef (run (cycle_events prun ppause cs) s)
         = last_pause (lastCloseTimerStartTimeRef s) cs
     \<and> calls (run (cycle_events prun ppause cs) s) = calls s"
proof (induction cs arbitrary: s d)
  case Nil
  then show ?case by simp
next
  case (Cons c cs)
  obtain r p where c: "c = (r, p)" by (cases c)
  define s' where "s' = timer_effect p ppause (timer_effect r prun s)"
  from Cons.prems c have sp: "lastCloseTimerStartTimeRef s < r" "spaced p cs" by simp_all
  have one: "remainingTime s' = Num (d - (p - r))" "lastCloseTimerStartTimeRef s' = p"
    "calls s' = calls s"
    using resume_then_pause [OF assms Cons.prems(1) sp(1) s'_def] by simp_all
  from sp(2) one(2) have "spaced (lastCloseTimerStartTimeRef s') cs" by simp
  from Cons.IH [OF one(1) this] one
  show ?case by (simp add: c s'_def algebra_simps)
qed

section \<open>What each handler leaves alone\<close>

lemma height_effect_fields:
  "timeoutId (height_effect h props s) = timeoutId s"
  "remainingTime (height_effect h props s) = remainingTime s"
  "calls (height_effect h props s) = calls s"
  "removed (height_effect h props s) = removed s"
  "offsetBeforeRemove (height_effect h props s) = offsetBeforeRemove s"
  "swipeOut (height_effect h props s) = swipeOut s"
  by (simp_all add: height_effect_def Let_def)

lemma onMount_fields:
  "timeoutId (onMount h props s) = timeoutId s"
  "remainingTime (onMount h props s) = remainingTime s"
  "calls (onMount h props s) = calls s"
  "removed (onMount h props s) = removed s"
  "offsetBeforeRemove (onMount h props s) = offsetBeforeRemove s"
  "swipeOut (onMount h props s) = swipeOut s"
  by (simp_all add: onMount_def height_effect_fields)

lemma onDragEnd_fields:
  "timeoutId (onDragEnd s) = timeoutId s"
  "remainingTime (onDragEnd s) = remainingTime s"
  "calls (onDragEnd s) = calls s"
  "removed (onDragEnd s) = removed s"
  "offsetBeforeRemove (onDragEnd s) = offsetBeforeRemove s"
  "swipeOut (onDragEnd s) = swipeOut s"
  by (simp_all add: onDragEnd_def)

lemma onPointerDown_fields:
  "timeoutId (onPointerDown ev now props s) = timeoutId s"
  "remainingTime (onPointerDown ev now props s) = remainingTime s"
  "calls (onPointerDown ev now props s) = calls s"
  "removed (onPointerDown ev now props s) = removed s"
  "swipeOut (onPointerDown ev now props s) = swipeOut s"
  by (simp_all add: onPointerDown_def Let_def)

lemma onPointerMove_fields:
  "timeoutId (onPointerMove ev hl props s) = timeoutId s"
  "remainingTime (onPointerMove ev hl props s) = remainingTime s"
  "calls (onPointerMove ev hl props s) = calls s"
  "removed (onPointerMove ev hl props s) = removed s"
  "offsetBeforeRemove (onPointerMove ev hl props s) = offsetBeforeRemove s"
  "swipeOut (onPointerMove ev hl props s) = swipeOut s"
  by (simp_all add: onPointerMove_def Let_def split: option.split prod.split)

text \<open>Pointer-up either changes nothing that matters here, or commits: it commits only
  from a state not yet swiped out, and then invokes \<open>onDismiss\<close> once.\<close>

lemma onPointerUp_outcomes:
  "(calls (onPointerUp now props s) = calls s \<and> swipeOut (onPointerUp now props s) = swipeOut s)
   \<or> (\<not> swipeOut s \<and> swipeOut (onPointerUp now props s)
       \<and> calls (onPointerUp now props s) =
            calls s @ (if onDismiss (toast props) then [OnDismiss] else []))"
proof (cases "dragStartTime s")
  case None
  then show ?thesis by (simp add: onPointerUp_def)
next
  case (Some t0)
  show ?thesis
  proof (cases "swipeOut s \<or> \<not> truthy (dismissible (toast props))")
    case True
    with Some show ?thesis by (auto simp: onPointerUp_def)
  next
    case False
    define amount where "amount = (if swipeDirection s = Some AxisX
        then css_number (swipe_amount_x s) else css_number (swipe_amount_y s))"
    show ?thesis
    proof (cases "\<bar>amount\<bar> \<ge> SWIPE_THRESHOLD \<or> gt (js_div \<bar>amount\<bar> (now - t0)) 0.11")
      case True
      from False have g: "truthy (dismissible (toast props))" "\<not> swipeOut s" by simp_all
      show ?thesis
        using onPointerUp_commit(1,3) [OF Some g amount_def True] g(2) by simp
    next
      case no: False
      from False have g: "truthy (dismissible (toast props))" "\<not> swipeOut s" by simp_all
      show ?thesis
        using onPointerUp_snap_back [OF Some g amount_def no] by simp
    qed
  qed
qed

lemma onPointerUp_fields:
  "timeoutId (onPointerUp now props s) = timeoutId s"
  "remainingTime (onPointerUp now props s) = remainingTime s"
  by (simp_all add: onPointerUp_def Let_def deleteToast_fields call_onDismiss_fields
      split: option.split)

lemma close_click_fields:
  "timeoutId (close_click props s) = timeoutId s"
  "remainingTime (close_click props s) = remainingTime s"
  "swipeOut (close_click props s) = swipeOut s"
  by (simp_all add: close_click_def deleteToast_fields call_onDismiss_fields)

lemma close_click_calls:
  "calls (close_click props s) = calls s \<or> calls (close_click props s) = calls s @ [OnDismiss]"
  by (simp add: close_click_def deleteToast_fields call_onDismiss_fields)

lemma cancel_click_fields:
  "timeoutId (cancel_click props s) = timeoutId s"
  "remainingTime (cancel_click props s) = remainingTime s"
  "calls (cancel_click props s) = calls s"
  "swipeOut (cancel_click props s) = swipeOut s"
  by (simp_all add: cancel_click_def deleteToast_fields)

lemma action_click_fields:
  "timeoutId (action_click dp props s) = timeoutId s"
  "remainingTime (action_click dp props s) = remainingTime s"
  "calls (action_click dp props s) = calls s"
  "swipeOut (action_click dp props s) = swipeOut s"
  by (simp_all add: action_click_def deleteToast_fields)

lemma delete_effect_fields:
  "timeoutId (delete_effect props s) = timeoutId s"
  "remainingTime (delete_effect props s) = remainingTime s"
  "calls (delete_effect props s) = calls s"
  "swipeOut (delete_effect props s) = swipeOut s"
  by (simp_all add: delete_effect_def deleteToast_fields Let_def)

text \<open>A second \<^verbatim>\<open>deleteToast\<close> leaves the offset where the first has put it, so the
  delete effect is settled after its second run.\<close>

lemma deleteToast_settles:
  "current_offset props (deleteToast props (deleteToast props s))
     = current_offset props (deleteToast props s)"
  by (simp add: current_offset_def deleteToast_fields)

lemma delete_effect_settled:
  "truthy (delete_flag (toast props)) \<Longrightarrow>
   current_offset props (deleteToast props (delete_effect props s))
     = current_offset props (delete_effect props s)"
  by (simp add: delete_effect_def Let_def deleteToast_settles)

lemma timeout_callback_fields:
  "timeoutId (timeout_callback props s) = None"
  "remainingTime (timeout_callback props s) = remainingTime s"
  "swipeOut (timeout_callback props s) = swipeOut s"
  by (simp_all add: timeout_callback_def deleteToast_fields call_onAutoClose_fields
      split: option.split)

lemma timeout_callback_idle: "timeoutId s = None \<Longrightarrow> timeout_callback props s = s"
  by (simp add: timeout_callback_def)

lemma timeout_callback_calls:
  "calls (timeout_callback props s) = calls s
   \<or> calls (timeout_callback props s) = calls s @ [OnAutoClose]"
  by (simp add: timeout_callback_def deleteToast_fields call_onAutoClose_fields
      split: option.split)

text \<open>No timeout is pending after a step unless one was pending before or the timer effect
  scheduled it; and a step other than the timeout callback invokes no \<open>onAutoClose\<close>.\<close>

lemma step_keeps_idle:
  assumes "timeoutId s = None" and "remainingTime s = Infinity \<or> \<not> timed props"
  shows "timeoutId (step props e s) = None"
    and "remainingTime s = Infinity \<Longrightarrow> remainingTime (step props e s) = Infinity"
    and "invocations OnAutoClose (step props e s) = invocations OnAutoClose s"
proof -
  have te: "timeoutId (timer_effect now props s) = None" for now
    using assms(2) by (auto simp: timer_effect_Infinity timer_effect_untimed)
  show "timeoutId (step props e s) = None"
    using assms(1) te
    by (cases e) (simp_all add: timeout_callback_fields delete_effect_fields onMount_fields
        height_effect_fields onPointerDown_fields onPointerMove_fields onPointerUp_fields
        onDragEnd_fields close_click_fields cancel_click_fields action_click_fields)
  show "remainingTime (step props e s) = Infinity" if "remainingTime s = Infinity"
    using that
    by (cases e) (simp_all add: timer_effect_Infinity timeout_callback_fields delete_effect_fields
        onMount_fields height_effect_fields onPointerDown_fields onPointerMove_fields
        onPointerUp_fields onDragEnd_fields close_click_fields cancel_click_fields
        action_click_fields)
  have up: "invocations OnAutoClose (onPointerUp now props s) = invocations OnAutoClose s" for now
    using onPointerUp_outcomes [of now props s] by (auto simp: invocations_def)
  have cl: "invocations OnAutoClose (close_click props s) = invocations OnAutoClose s"
    using close_click_calls [of props s] by (auto simp: invocations_def)
  show "invocations OnAutoClose (step props e s) = invocations OnAutoClose s"
    using up cl assms(1)
    by (cases e) (simp_all add: invocations_def timer_effect_fields timeout_callback_idle
        delete_effect_fields onMount_fields height_effect_fields onPointerDown_fields
        onPointerMove_fields onDragEnd_fields cancel_click_fields action_click_fields)
qed

lemma run_keeps_idle:
  "timeoutId s = None \<Longrightarrow>
   remainingTime s = Infinity \<or> list_all (\<lambda>(props, e). \<not> timed props) es \<Longrightarrow>
   timeoutId (run es s) = None
   \<and> invocations OnAutoClose (run es s) = invocations OnAutoClose s"
proof (induction es arbitrary: s)
  case Nil
  then show ?case by simp
next
  case (Cons pe es)
  obtain props e where pe: "pe = (props, e)" by (cases pe)
  from Cons.prems(2) pe have here: "remainingTime s = Infinity \<or> \<not> timed props" by auto
  from Cons.prems(2) pe have rest:
    "remainingTime (step props e s) = Infinity \<or> list_all (\<lambda>(props, e). \<not> timed props) es"
    using step_keeps_idle(2) [OF Cons.prems(1) here] by auto
  have idle: "timeoutId (step props e s) = None"
    using Cons.prems(1) here by (rule step_keeps_idle(1))
  have inv: "invocations OnAutoClose (step props e s) = invocations OnAutoClose s"
    using Cons.prems(1) here by (rule step_keeps_idle(3))
  from Cons.IH [OF idle rest] inv pe show ?case by simp
qed

lemma example_props_timed:
  "timed example_props" "\<not> paused example_props"
  "timed hovered_props" "paused hovered_props"
  by (simp_all add: timed_def paused_def isLoading_def hovered_props_def example_props_eval)

lemma mounted_example_timer:
  "remainingTime (mounted_Toast example_props layout_example) = Num 4000"
  "lastCloseTimerStartTimeRef (mounted_Toast example_props layout_example) = 0"
  "closeTimerStartTimeRef (mounted_Toast example_props layout_example) = 0"
  "timeoutId (mounted_Toast example_props layout_example) = None"
  "calls (mounted_Toast example_props layout_example) = []"
  unfolding mounted_example_eval by simp_all

lemma untimed_props:
  "\<not> timed infinite_props" "\<not> timed (infinite_props\<lparr> expanded := True \<rparr>)"
  "\<not> timed loading_props" "\<not> timed (loading_props\<lparr> expanded := True \<rparr>)"
  "initial_remainingTime infinite_props = Infinity"
  "isLoading loading_props"
  by (simp_all add: timed_def isLoading_def infinite_props_def loading_props_def
      initial_remainingTime_def example_props_eval)

lemma new_Toast_fields:
  "timeoutId (new_Toast props hs) = None"
  "calls (new_Toast props hs) = []"
  "remainingTime (new_Toast props hs) = initial_remainingTime props"
  "swipeOut (new_Toast props hs) = False"
  "removed (new_Toast props hs) = False"
  by (simp_all add: new_Toast_def)

section \<open>Facts about traces\<close>

text \<open>No step leaves a pending timeout with an infinite delay.\<close>

lemma step_finite_delay:
  "timeoutId s \<noteq> Some Infinity \<Longrightarrow> timeoutId (step props e s) \<noteq> Some Infinity"
proof (cases e)
  case (TimerEffect now)
  show ?thesis
    using timer_effect_scheduled(2) [of now props s Infinity] by (auto simp: TimerEffect)
qed (simp_all add: timeout_callback_fields delete_effect_fields onMount_fields
    height_effect_fields onPointerDown_fields onPointerMove_fields onPointerUp_fields
    onDragEnd_fields close_click_fields cancel_click_fields action_click_fields)

lemma run_finite_delay:
  "timeoutId s \<noteq> Some Infinity \<Longrightarrow> timeoutId (run es s) \<noteq> Some Infinity"
proof (induction es arbitrary: s)
  case Nil
  then show ?case by simp
next
  case (Cons pe es)
  obtain props e where pe: "pe = (props, e)" by (cases pe)
  from Cons.prems have "timeoutId (step props e s) \<noteq> Some Infinity"
    by (rule step_finite_delay)
  from Cons.IH [OF this] pe show ?case by simp
qed


lemma invocations_append:
  "calls t = calls s @ cs \<Longrightarrow> invocations c t = invocations c s + count_list cs c"
  by (simp add: invocations_def)

lemma invocations_same: "calls t = calls s \<Longrightarrow> invocations c t = invocations c s"
  by (simp add: invocations_def)

lemma step_auto_close_bound:
  "invocations OnAutoClose (step props e s)
     \<le> invocations OnAutoClose s + (if e = Timeout then 1 else 0)"
proof -
  have up: "invocations OnAutoClose (onPointerUp now props s) = invocations OnAutoClose s" for now
    using onPointerUp_outcomes [of now props s] by (auto simp: invocations_def)
  have cl: "invocations OnAutoClose (close_click props s) = invocations OnAutoClose s"
    using close_click_calls [of props s] by (auto simp: invocations_def)
  have tc: "invocations OnAutoClose (timeout_callback props s) \<le> invocations OnAutoClose s + 1"
    using timeout_callback_calls [of props s] by (auto simp: invocations_def)
  show ?thesis
    using up cl tc
    by (cases e) (simp_all add: invocations_def timer_effect_fields delete_effect_fields
        onMount_fields height_effect_fields onPointerDown_fields onPointerMove_fields
        onDragEnd_fields cancel_click_fields action_click_fields)
qed

lemma step_dismiss_bound:
  "dismiss_budget (step props e s) \<le> dismiss_budget s + (if e = CloseClick then 1 else 0)"
proof -
  have same: "dismiss_budget t \<le> dismiss_budget s + k"
    if "calls t = calls s" and "swipeOut t = swipeOut s" for t k
    using that by (simp add: dismiss_budget_def invocations_def)
  have up: "dismiss_budget (onPointerUp now props s) \<le> dismiss_budget s" for now
    using onPointerUp_outcomes [of now props s] by (auto simp: dismiss_budget_def invocations_def)
  have cl: "dismiss_budget (close_click props s) \<le> dismiss_budget s + 1"
    using close_click_calls [of props s]
    by (auto simp: dismiss_budget_def invocations_def close_click_fields)
  have tc: "dismiss_budget (timeout_callback props s) = dismiss_budget s"
    using timeout_callback_calls [of props s]
    by (auto simp: dismiss_budget_def invocations_def timeout_callback_fields)
  show ?thesis
  proof (cases e)
    case (TimerEffect now)
    show ?thesis unfolding TimerEffect step.simps
      by (rule same) (simp_all add: timer_effect_fields)
  next
    case Timeout
    then show ?thesis by (simp add: tc)
  next
    case DeleteEffect
    show ?thesis unfolding DeleteEffect step.simps
      by (rule same) (simp_all add: delete_effect_fields)
  next
    case (Mount h)
    show ?thesis unfolding Mount step.simps
      by (rule same) (simp_all add: onMount_fields)
  next
    case HeightEffect
    show ?thesis unfolding HeightEffect step.simps
      by (rule same) (simp_all add: height_effect_fields)
  next
    case (PointerDown ev now)
    show ?thesis unfolding PointerDown step.simps
      by (rule same) (simp_all add: onPointerDown_fields)
  next
    case (PointerMove ev hl)
    show ?thesis unfolding PointerMove step.simps
      by (rule same) (simp_all add: onPointerMove_fields)
  next
    case (PointerUp now)
    then show ?thesis by (simp add: up)
  next
    case DragEnd
    show ?thesis unfolding DragEnd step.simps
      by (rule same) (simp_all add: onDragEnd_fields)
  next
    case CloseClick
    then show ?thesis using cl by simp
  next
    case CancelClick
    show ?thesis unfolding CancelClick step.simps
      by (rule same) (simp_all add: cancel_click_fields)
  next
    case (ActionClick dp)
    show ?thesis unfolding ActionClick step.simps
      by (rule same) (simp_all add: action_click_fields)
  next
    case (SetHeights hs)
    show ?thesis unfolding SetHeights step.simps
      by (rule same) simp_all
  qed
qed

lemma run_callback_bounds:
  "invocations OnAutoClose (run es s) \<le> invocations OnAutoClose s + occurrences Timeout es
   \<and> dismiss_budget (run es s) \<le> dismiss_budget s + occurrences CloseClick es"
proof (induction es arbitrary: s)
  case Nil
  show ?case by (simp add: occurrences_def)
next
  case (Cons pe es)
  obtain props e where pe: "pe = (props, e)" by (cases pe)
  have a: "invocations OnAutoClose (step props e s)
      \<le> invocations OnAutoClose s + (if e = Timeout then 1 else 0)"
    by (rule step_auto_close_bound)
  have d: "dismiss_budget (step props e s) \<le> dismiss_budget s + (if e = CloseClick then 1 else 0)"
    by (rule step_dismiss_bound)
  have oa: "occurrences Timeout (pe # es) = (if e = Timeout then 1 else 0) + occurrences Timeout es"
    by (simp add: occurrences_def pe)
  have od: "occurrences CloseClick (pe # es)
      = (if e = CloseClick then 1 else 0) + occurrences CloseClick es"
    by (simp add: occurrences_def pe)
  have ih: "invocations OnAutoClose (run es (step props e s))
      \<le> invocations OnAutoClose (step props e s) + occurrences Timeout es"
    "dismiss_budget (run es (step props e s))
      \<le> dismiss_budget (step props e s) + occurrences CloseClick es"
    using Cons.IH [of "step props e s"] by simp_all
  have "invocations OnAutoClose (run es (step props e s))
      \<le> invocations OnAutoClose s + occurrences Timeout (pe # es)"
    using ih(1) a unfolding oa by linarith
  moreover have "dismiss_budget (run es (step props e s))
      \<le> dismiss_budget s + occurrences CloseClick (pe # es)"
    using ih(2) d unfolding od by linarith
  ultimately show ?case by (simp add: pe)
qed

lemma example_toast_type:
  "toast_type (toast example_props) = Some Success"
  "onDismiss (toast example_props)" "onAutoClose (toast example_props)"
  "tid (toast example_props) = NumId 2" "gap example_props = 14"
  "toast_position (toast example_props) = Some ''bottom-right''"
  by (simp_all add: example_props_eval)

lemma example_props_duration:
  "duration (toast example_props) = None" "duration_prop example_props = None"
  by (simp_all add: example_props_eval)

lemma dismissed_props_fields:
  "tid (toast dismissed_props) = NumId 2" "gap dismissed_props = 14"
  "toast_position (toast dismissed_props) = Some ''bottom-right''"
  "truthy (delete_flag (toast dismissed_props))"
  by (simp_all add: dismissed_props_def example_props_def example_toast_def GAP_def)

lemma example_offsets:
  assumes "tid (toast props) = NumId 2" and "gap props = 14"
    and "toast_position (toast props) = Some ''bottom-right''"
  shows "current_offset props (mounted_Toast example_props layout_example) = 54"
    and "current_offset props (deleteToast props (mounted_Toast example_props layout_example)) = - 14"
  unfolding mounted_example_eval
  using assms
  by (simp_all add: current_offset_def props_heights_def deleteToast_def
      layout_example_def offset_def heightIndex_def or_zero_def toastsHeightBefore_def
      toastsHeightBefore_loop.simps)

lemma flag_dismissal_eval:
  "run flag_dismissal (mounted_Toast example_props layout_example)
     = deleteToast dismissed_props
         (deleteToast dismissed_props (mounted_Toast example_props layout_example))"
  by (simp add: flag_dismissal_def delete_effect_def Let_def dismissed_props_fields
      example_offsets [OF dismissed_props_fields(1-3)])

lemma close_then_press_eval:
  "run (take 1 close_then_press) (mounted_Toast example_props layout_example)
     = call_onDismiss example_props
         (deleteToast example_props (mounted_Toast example_props layout_example))"
  "run close_then_press (mounted_Toast example_props layout_example)
     = onPointerDown (pointer_at 100 100) 5000 example_props
         (call_onDismiss example_props
           (deleteToast example_props (mounted_Toast example_props layout_example)))"
  by (simp_all add: close_then_press_def close_click_def isLoading_def example_props_fields
      example_toast_type)

lemma current_offset_cong:
  "heights t = heights s \<Longrightarrow> current_offset props t = current_offset props s"
  by (simp add: current_offset_def)

lemma swipe_trace_calls:
  "calls (run swipe_trace (new_Toast example_props layout_example)) = [OnDismiss]"
proof -
  have m: "onMount 60 example_props (new_Toast example_props layout_example)
      = mounted_Toast example_props layout_example"
    by (simp add: mounted_Toast_def)
  have d: "onPointerMove (pointer_at 150 100) False example_props
        (onPointerDown (pointer_at 100 100) 5000 example_props
          (mounted_Toast example_props layout_example))
      = dragged example_props layout_example 150 100"
    by (simp add: dragged_def pressed_def)
  have u: "swipeOut (onPointerUp 6000 example_props (dragged example_props layout_example 150 100))"
    "calls (onPointerUp 6000 example_props (dragged example_props layout_example 150 100))
       = [OnDismiss]"
    unfolding dragged_example_50
    by (simp_all add: onPointerUp_def Let_def css_number_def SWIPE_THRESHOLD_def
        call_onDismiss_fields deleteToast_fields example_props_fields example_toast_type)
  have again: "onPointerUp 6100 example_props t = t" if "swipeOut t" for t
    using that by (simp add: onPointerUp_def split: option.split)
  show ?thesis
    unfolding swipe_trace_def run.simps step.simps m d
    using u by (simp add: again)
qed

section \<open>Facts about the registry\<close>

lemma findIndex_found:
  "findIndex p xs \<noteq> - 1 \<Longrightarrow>
   \<exists>k. findIndex p xs = int k \<and> k < length xs \<and> p (xs ! k) \<and> (\<forall>j<k. \<not> p (xs ! j))"
proof (induction xs)
  case Nil
  then show ?case by simp
next
  case (Cons x xs)
  show ?case
  proof (cases "p x")
    case True
    then have "findIndex p (x # xs) = int 0 \<and> 0 < length (x # xs) \<and> p ((x # xs) ! 0)
        \<and> (\<forall>j<0. \<not> p ((x # xs) ! j))" by simp
    then show ?thesis by blast
  next
    case False
    with Cons.prems have "findIndex p xs \<noteq> - 1" by (auto simp: Let_def split: if_splits)
    from Cons.IH [OF this] obtain k where k: "findIndex p xs = int k" "k < length xs"
      "p (xs ! k)" "\<forall>j<k. \<not> p (xs ! j)" by blast
    have first: "\<forall>j<Suc k. \<not> p ((x # xs) ! j)"
    proof (intro allI impI)
      fix j assume "j < Suc k"
      then show "\<not> p ((x # xs) ! j)" using False k(4) by (cases j) auto
    qed
    have "findIndex p (x # xs) = int (Suc k)" using False k(1) by (simp add: Let_def)
    with k(2,3) first show ?thesis
      by (intro exI [of _ "Suc k"]) simp
  qed
qed

lemma filter_single:
  "k < length xs \<Longrightarrow> p (xs ! k) \<Longrightarrow> (\<forall>j<length xs. j \<noteq> k \<longrightarrow> \<not> p (xs ! j)) \<Longrightarrow>
   filter p xs = [xs ! k]"
proof (induction xs arbitrary: k)
  case Nil
  then show ?case by simp
next
  case (Cons x xs)
  show ?case
  proof (cases k)
    case 0
    have "\<forall>y \<in> set xs. \<not> p y"
    proof
      fix y assume "y \<in> set xs"
      then obtain j where "j < length xs" "xs ! j = y" by (auto simp: in_set_conv_nth)
      with Cons.prems(3) 0 show "\<not> p y" by (auto dest: spec [of _ "Suc j"])
    qed
    then have "filter p xs = []" by (simp add: filter_empty_conv)
    with Cons.prems(2) 0 show ?thesis by simp
  next
    case (Suc m)
    from Cons.prems(3) Suc have nx: "\<not> p x" by (auto dest: spec [of _ 0])
    have rest: "\<forall>j<length xs. j \<noteq> m \<longrightarrow> \<not> p (xs ! j)"
    proof (intro allI impI)
      fix j assume "j < length xs" "j \<noteq> m"
      with Cons.prems(3) Suc show "\<not> p (xs ! j)" by (auto dest: spec [of _ "Suc j"])
    qed
    from Cons.prems(1,2) Suc have "m < length xs" "p (xs ! m)" by simp_all
    from Cons.IH [OF this rest] nx Suc show ?thesis by simp
  qed
qed

text \<open>With distinct ids, the record found by \<^verbatim>\<open>findIndex\<close> is the one record of that id.\<close>

lemma found_is_the_record:
  assumes "distinct (map (\<lambda>t. property t ''id'') toasts)" and "old \<in> set toasts"
    and "property old ''id'' = ident"
  obtains k where "findIndex (\<lambda>t. property t ''id'' = ident) toasts = int k"
    and "k < length toasts" and "toasts ! k = old"
    and "\<forall>j<length toasts. j \<noteq> k \<longrightarrow> property (toasts ! j) ''id'' \<noteq> ident"
proof -
  from assms(2) obtain i where i: "i < length toasts" "toasts ! i = old"
    by (auto simp: in_set_conv_nth)
  have uniq: "j = i" if "j < length toasts" "property (toasts ! j) ''id'' = ident" for j
  proof -
    have same: "map (\<lambda>t. property t ''id'') toasts ! j = map (\<lambda>t. property t ''id'') toasts ! i"
      using that i assms(3) by simp
    have "(map (\<lambda>t. property t ''id'') toasts ! j = map (\<lambda>t. property t ''id'') toasts ! i)
        = (j = i)"
      using assms(1) that(1) i(1) by (intro nth_eq_iff_index_eq) simp_all
    with same show ?thesis by simp
  qed
  have "\<exists>x \<in> set toasts. property x ''id'' = ident" using assms(2,3) by blast
  then have "findIndex (\<lambda>t. property t ''id'' = ident) toasts \<noteq> - 1"
    by (simp add: findIndex_none)
  from findIndex_found [OF this] obtain k where
    k: "findIndex (\<lambda>t. property t ''id'' = ident) toasts = int k" "k < length toasts"
      "property (toasts ! k) ''id'' = ident" by blast
  from uniq [OF k(2,3)] have ki: "k = i" .
  have "\<forall>j<length toasts. j \<noteq> k \<longrightarrow> property (toasts ! j) ''id'' \<noteq> ident"
    using uniq ki by blast
  with k(1,2) i(2) ki that show ?thesis by blast
qed

lemma property_spread:
  "property (spread a b) k = (case b k of Some v \<Rightarrow> v | None \<Rightarrow> property a k)"
  by (simp add: property_def spread_def map_add_def split: option.split)

lemma spread_id:
  assumes "property a ''id'' = property b ''id''"
  shows "property (spread a b) ''id'' = property b ''id''"
proof (cases "b ''id''")
  case None
  then show ?thesis using assms by (simp add: property_spread)
next
  case (Some v)
  then show ?thesis by (simp add: property_spread) (simp add: property_def)
qed

lemma spread_not_dismiss:
  assumes "\<not> truthy_val (property a ''dismiss'')" and "\<not> truthy_val (property b ''dismiss'')"
  shows "\<not> truthy_val (property (spread a b) ''dismiss'')"
proof (cases "b ''dismiss''")
  case None
  then show ?thesis using assms(1) by (simp add: property_spread)
next
  case (Some v)
  then have "property b ''dismiss'' = v" by (simp add: property_def)
  with Some assms(2) show ?thesis by (simp add: property_spread)
qed

lemma spread_twice: "spread a (spread a b) = spread a b"
  by (simp add: spread_def fun_eq_iff map_add_def split: option.split)

lemma property_reconcile: "property (reconcile target previous) k = property target k"
  by (simp add: property_def reconcile_def split: option.split jsval.split)

lemma replaced_record:
  assumes "k < length toasts" and "property y ''id'' = ident"
    and "property (toasts ! k) ''id'' = ident"
    and "\<forall>j<length toasts. j \<noteq> k \<longrightarrow> property (toasts ! j) ''id'' \<noteq> ident"
  shows "filter (\<lambda>t. property t ''id'' = ident) (toasts[k := y]) = [y]"
    and "map (\<lambda>t. property t ''id'') (toasts[k := y]) = map (\<lambda>t. property t ''id'') toasts"
proof -
  have "filter (\<lambda>t. property t ''id'' = ident) (toasts[k := y]) = [toasts[k := y] ! k]"
  proof (rule filter_single)
    show "k < length (toasts[k := y])" using assms(1) by simp
    show "property (toasts[k := y] ! k) ''id'' = ident" using assms(1,2) by simp
    show "\<forall>j<length (toasts[k := y]). j \<noteq> k \<longrightarrow> property (toasts[k := y] ! j) ''id'' \<noteq> ident"
      using assms(4) by simp
  qed
  then show "filter (\<lambda>t. property t ''id'' = ident) (toasts[k := y]) = [y]"
    using assms(1) by simp
  have "map (\<lambda>t. property t ''id'') (toasts[k := y])
      = (map (\<lambda>t. property t ''id'') toasts)[k := property y ''id'']"
    by (simp add: map_update)
  also have "\<dots> = map (\<lambda>t. property t ''id'') toasts"
    using assms(1,2,3) by (simp add: list_update_same_conv)
  finally show "map (\<lambda>t. property t ''id'') (toasts[k := y]) = map (\<lambda>t. property t ''id'') toasts" .
qed

text \<open>An upsert of an id that the list holds, in either subscriber.\<close>

lemma useSonner_subscriber_update:
  assumes "distinct (map (\<lambda>t. property t ''id'') toasts)" and "old \<in> set toasts"
    and "property old ''id'' = property toast' ''id''"
    and "\<not> truthy_val (property toast' ''dismiss'')"
  shows "with_id_of toast' (useSonner_subscriber toast' toasts) = [spread old toast']"
    and "map (\<lambda>t. property t ''id'') (useSonner_subscriber toast' toasts)
           = map (\<lambda>t. property t ''id'') toasts"
proof -
  from found_is_the_record [OF assms(1,2,3)] obtain k where
    k: "findIndex (\<lambda>t. property t ''id'' = property toast' ''id'') toasts = int k"
      "k < length toasts" "toasts ! k = old"
      "\<forall>j<length toasts. j \<noteq> k \<longrightarrow> property (toasts ! j) ''id'' \<noteq> property toast' ''id''"
    by blast
  have "useSonner_subscriber toast' toasts
      = take k toasts @ [spread old toast'] @ drop (k + 1) toasts"
    using assms(4) k(1,3) by (simp add: useSonner_subscriber_def Let_def)
  also have "\<dots> = toasts[k := spread old toast']"
    using k(2) by (simp add: upd_conv_take_nth_drop)
  finally have r: "useSonner_subscriber toast' toasts = toasts[k := spread old toast']" .
  have y: "property (spread old toast') ''id'' = property toast' ''id''"
    using assms(3) by (rule spread_id)
  have o: "property (toasts ! k) ''id'' = property toast' ''id''" using k(3) assms(3) by simp
  show "with_id_of toast' (useSonner_subscriber toast' toasts) = [spread old toast']"
    unfolding with_id_of_def r using k(2) y o k(4) by (rule replaced_record(1))
  show "map (\<lambda>t. property t ''id'') (useSonner_subscriber toast' toasts)
           = map (\<lambda>t. property t ''id'') toasts"
    unfolding r using k(2) y o k(4) by (rule replaced_record(2))
qed

lemma Toaster_subscriber_update:
  assumes "distinct (map (\<lambda>t. property t ''id'') toasts)" and "old \<in> set toasts"
    and "property old ''id'' = property toast' ''id''"
    and "\<not> truthy_val (property toast' ''dismiss'')"
  shows "with_id_of toast' (Toaster_subscriber toast' toasts) = [reconcile toast' old]"
    and "map (\<lambda>t. property t ''id'') (Toaster_subscriber toast' toasts)
           = map (\<lambda>t. property t ''id'') toasts"
proof -
  from found_is_the_record [OF assms(1,2,3)] obtain k where
    k: "findIndex (\<lambda>t. property t ''id'' = property toast' ''id'') toasts = int k"
      "k < length toasts" "toasts ! k = old"
      "\<forall>j<length toasts. j \<noteq> k \<longrightarrow> property (toasts ! j) ''id'' \<noteq> property toast' ''id''"
    by blast
  have r: "Toaster_subscriber toast' toasts = toasts[k := reconcile toast' old]"
    using assms(4) k(1,3) by (simp add: Toaster_subscriber_def Let_def)
  have y: "property (reconcile toast' old) ''id'' = property toast' ''id''"
    by (rule property_reconcile)
  have o: "property (toasts ! k) ''id'' = property toast' ''id''" using k(3) assms(3) by simp
  show "with_id_of toast' (Toaster_subscriber toast' toasts) = [reconcile toast' old]"
    unfolding with_id_of_def r using k(2) y o k(4) by (rule replaced_record(1))
  show "map (\<lambda>t. property t ''id'') (Toaster_subscriber toast' toasts)
           = map (\<lambda>t. property t ''id'') toasts"
    unfolding r using k(2) y o k(4) by (rule replaced_record(2))
qed

text \<open>A first publish of an id that no list holds, and the publish of the same id after it.\<close>

lemma absent_not_found:
  "with_id_of toast' toasts = [] \<Longrightarrow>
   findIndex (\<lambda>t. property t ''id'' = property toast' ''id'') toasts = - 1"
  by (simp add: with_id_of_def findIndex_none filter_empty_conv)

lemma publish_new:
  assumes "with_id_of p (records sys) = []" and "with_id_of p (activeToasts sys) = []"
    and "with_id_of p (toastsStore sys) = []" and "\<not> truthy_val (property p ''dismiss'')"
  shows "publish p sys =
           \<lparr> records = records sys @ [p], activeToasts = p # activeToasts sys,
             toastsStore = p # toastsStore sys,
             useSonner_received = useSonner_received sys @ [p],
             Toaster_received = Toaster_received sys @ [p] \<rparr>"
  using assms
  by (simp add: publish_def Let_def absent_not_found useSonner_subscriber_def
      Toaster_subscriber_def)

lemma appended_found:
  assumes "with_id_of p xs = []" and "property y ''id'' = property p ''id''"
  shows "findIndex (\<lambda>t. property t ''id'' = property p ''id'') (xs @ [y]) = int (length xs)"
proof (rule findIndex_first)
  show "length xs < length (xs @ [y])" by simp
  show "property ((xs @ [y]) ! length xs) ''id'' = property p ''id''" using assms(2) by simp
  show "\<forall>j<length xs. \<not> property ((xs @ [y]) ! j) ''id'' = property p ''id''"
    using assms(1) by (auto simp: with_id_of_def filter_empty_conv nth_append)
qed

lemma publish_again:
  assumes "with_id_of q xs = []" and "with_id_of q as = []" and "with_id_of q ts = []"
    and "property p ''id'' = property q ''id''"
    and "\<not> truthy_val (property p ''dismiss'')" and "\<not> truthy_val (property q ''dismiss'')"
  shows "publish q \<lparr> records = xs @ [p], activeToasts = p # as, toastsStore = p # ts,
                     useSonner_received = ur, Toaster_received = tr \<rparr> =
           \<lparr> records = xs @ [spread p q], activeToasts = spread p (spread p q) # as,
             toastsStore = reconcile (spread p q) p # ts,
             useSonner_received = ur @ [spread p q], Toaster_received = tr @ [spread p q] \<rparr>"
proof -
  have f: "findIndex (\<lambda>t. property t ''id'' = property q ''id'') (xs @ [p]) = int (length xs)"
    using assms(1,4) by (rule appended_found)
  have mid: "property (spread p q) ''id'' = property q ''id''" using assms(4) by (rule spread_id)
  have nd: "\<not> truthy_val (property (spread p q) ''dismiss'')"
    using assms(5,6) by (rule spread_not_dismiss)
  show ?thesis
    using f mid nd assms(4)
    by (simp add: publish_def Let_def useSonner_subscriber_def Toaster_subscriber_def)
qed

text \<open>Both subscribers keep the ids of their list distinct.\<close>

lemma same_id_update:
  assumes "k < length toasts" and "property y ''id'' = property (toasts ! k) ''id''"
  shows "map (\<lambda>t. property t ''id'') (toasts[k := y]) = map (\<lambda>t. property t ''id'') toasts"
proof -
  have "map (\<lambda>t. property t ''id'') (toasts[k := y])
      = (map (\<lambda>t. property t ''id'') toasts)[k := property y ''id'']"
    by (simp add: map_update)
  also have "\<dots> = map (\<lambda>t. property t ''id'') toasts"
    using assms by (simp add: list_update_same_conv)
  finally show ?thesis .
qed

lemma useSonner_subscriber_distinct:
  assumes "distinct (map (\<lambda>t. property t ''id'') toasts)"
  shows "distinct (map (\<lambda>t. property t ''id'') (useSonner_subscriber toast' toasts))"
proof (cases "truthy_val (property toast' ''dismiss'')")
  case True
  then show ?thesis using assms by (simp add: useSonner_subscriber_def distinct_map_filter)
next
  case False
  show ?thesis
  proof (cases "findIndex (\<lambda>t. property t ''id'' = property toast' ''id'') toasts = - 1")
    case True
    then have "\<forall>t \<in> set toasts. property t ''id'' \<noteq> property toast' ''id''"
      by (simp add: findIndex_none)
    then have "property toast' ''id'' \<notin> set (map (\<lambda>t. property t ''id'') toasts)" by auto
    with True False assms show ?thesis by (simp add: useSonner_subscriber_def Let_def)
  next
    case found: False
    from findIndex_found [OF found] obtain k where
      k: "findIndex (\<lambda>t. property t ''id'' = property toast' ''id'') toasts = int k"
        "k < length toasts" "property (toasts ! k) ''id'' = property toast' ''id''" by blast
    have "useSonner_subscriber toast' toasts
        = take k toasts @ [spread (toasts ! k) toast'] @ drop (k + 1) toasts"
      using False k(1) by (simp add: useSonner_subscriber_def Let_def)
    also have "\<dots> = toasts[k := spread (toasts ! k) toast']"
      using k(2) by (simp add: upd_conv_take_nth_drop)
    finally have r: "useSonner_subscriber toast' toasts = toasts[k := spread (toasts ! k) toast']" .
    have "property (spread (toasts ! k) toast') ''id'' = property (toasts ! k) ''id''"
      using k(3) by (simp add: spread_id)
    with k(2) have "map (\<lambda>t. property t ''id'') (toasts[k := spread (toasts ! k) toast'])
        = map (\<lambda>t. property t ''id'') toasts" by (rule same_id_update)
    with assms r show ?thesis by simp
  qed
qed

lemma Toaster_subscriber_distinct:
  assumes "distinct (map (\<lambda>t. property t ''id'') toasts)"
  shows "distinct (map (\<lambda>t. property t ''id'') (Toaster_subscriber toast' toasts))"
proof (cases "truthy_val (property toast' ''dismiss'')")
  case True
  have r: "Toaster_subscriber toast' toasts
      = map (\<lambda>t. if property t ''id'' = property toast' ''id''
                 then t(''delete'' \<mapsto> JBool True) else t) toasts"
    using True by (simp add: Toaster_subscriber_def)
  have "map (\<lambda>t. property t ''id'') (Toaster_subscriber toast' toasts)
      = map (\<lambda>t. property t ''id'') toasts"
    unfolding r by (simp add: property_def)
  with assms show ?thesis by simp
next
  case False
  show ?thesis
  proof (cases "findIndex (\<lambda>t. property t ''id'' = property toast' ''id'') toasts = - 1")
    case True
    then have "\<forall>t \<in> set toasts. property t ''id'' \<noteq> property toast' ''id''"
      by (simp add: findIndex_none)
    then have "property toast' ''id'' \<notin> set (map (\<lambda>t. property t ''id'') toasts)" by auto
    with True False assms show ?thesis by (simp add: Toaster_subscriber_def Let_def)
  next
    case found: False
    from findIndex_found [OF found] obtain k where
      k: "findIndex (\<lambda>t. property t ''id'' = property toast' ''id'') toasts = int k"
        "k < length toasts" "property (toasts ! k) ''id'' = property toast' ''id''" by blast
    have r: "Toaster_subscriber toast' toasts = toasts[k := reconcile toast' (toasts ! k)]"
      using False k(1) by (simp add: Toaster_subscriber_def Let_def)
    have "property (reconcile toast' (toasts ! k)) ''id'' = property (toasts ! k) ''id''"
      using k(3) by (simp add: property_reconcile)
    with k(2) have "map (\<lambda>t. property t ''id'') (toasts[k := reconcile toast' (toasts ! k)])
        = map (\<lambda>t. property t ''id'') toasts" by (rule same_id_update)
    with assms r show ?thesis by simp
  qed
qed

lemma subscribers_never_duplicate:
  "distinct (map (\<lambda>t. property t ''id'') toasts) \<Longrightarrow>
   distinct (map (\<lambda>t. property t ''id'') (fold useSonner_subscriber messages toasts))
   \<and> distinct (map (\<lambda>t. property t ''id'') (fold Toaster_subscriber messages toasts))"
proof (induction messages arbitrary: toasts)
  case Nil
  then show ?case by simp
next
  case (Cons m messages)
  have u: "distinct (map (\<lambda>t. property t ''id'') (useSonner_subscriber m toasts))"
    using Cons.prems by (rule useSonner_subscriber_distinct)
  have t: "distinct (map (\<lambda>t. property t ''id'') (Toaster_subscriber m toasts))"
    using Cons.prems by (rule Toaster_subscriber_distinct)
  from Cons.IH [OF u] Cons.IH [OF t] show ?case by simp
qed

section \<open>Layout properties\<close>



text \<open>
  C10. A toast whose id has no entry in the heights list has \<open>heightIndex = -1\<close>:
  \<^verbatim>\<open>findIndex\<close> returns \<open>-1\<close>, which \<^verbatim>\<open>|| 0\<close> lets through. Its offset is \<open>-1 * gap\<close>,
  negative for a positive gap, and not \<open>0\<close>.
\<close>

theorem offset_without_height_entry:
  assumes "\<forall>h \<in> set hs. toastId h \<noteq> ident"
  shows "findIndex (\<lambda>h. toastId h = ident) hs = - 1
       \<and> heightIndex hs ident = - 1
       \<and> offset hs ident g = - 1 * g
       \<and> (0 < g \<longrightarrow> offset hs ident g < 0)"
proof -
  have "findIndex (\<lambda>h. toastId h = ident) hs = - 1"
    using assms by (simp add: findIndex_none)
  moreover have "heightIndex hs ident = - 1"
    using assms by (rule offset_absent(1))
  moreover have "offset hs ident g = - g"
    using assms by (rule offset_absent(2))
  ultimately show ?thesis by simp
qed

theorem offset_without_height_entry_witness:
  "list_all (\<lambda>h. toastId h \<noteq> NumId 4) layout_example
   \<and> heightIndex layout_example (NumId 4) = - 1
   \<and> offset layout_example (NumId 4) 14 = - 14"
proof -
  have a: "\<forall>h \<in> set layout_example. toastId h \<noteq> NumId 4"
    by (simp add: layout_example_def)
  from offset_without_height_entry [OF a, of 14] a show ?thesis
    by (simp add: list_all_iff)
qed

section \<open>Gesture properties\<close>

text \<open>
  C8. The default swipe directions come from the anchors of the position string: a
  position \<open>y-x\<close> gives the two directions \<open>y\<close> and \<open>x\<close>, one for the vertical and one
  for the horizontal anchor. For the centre positions the list is the vertical anchor and
  the string \<open>center\<close>, which is no swipe direction, so the vertical direction is the only
  one allowed, and a pointer-move on such a toast, when the caller supplies no directions,
  always writes the horizontal swipe amount \<open>0\<close>: never the raw horizontal movement.
\<close>

theorem default_swipe_directions:
  "(\<forall>y x. y \<noteq> [] \<and> CHR ''-'' \<notin> set y \<and> x \<noteq> [] \<and> CHR ''-'' \<notin> set x
        \<longrightarrow> getDefaultSwipeDirections (y @ ''-'' @ x) = [y, x])
   \<and> getDefaultSwipeDirections ''top-left'' = [''top'', ''left'']
   \<and> getDefaultSwipeDirections ''top-right'' = [''top'', ''right'']
   \<and> getDefaultSwipeDirections ''bottom-left'' = [''bottom'', ''left'']
   \<and> getDefaultSwipeDirections ''bottom-right'' = [''bottom'', ''right'']
   \<and> filter is_SwipeDirection (getDefaultSwipeDirections ''top-center'') = [''top'']
   \<and> filter is_SwipeDirection (getDefaultSwipeDirections ''bottom-center'') = [''bottom'']
   \<and> (\<forall>props s ev hl px py.
         (position_prop props = ''top-center'' \<or> position_prop props = ''bottom-center'')
         \<and> swipeDirections props = None \<and> pointerStartRef s = Some (px, py)
         \<and> truthy (dismissible (toast props)) \<and> \<not> hl
        \<longrightarrow> swipe_amount_x (onPointerMove ev hl props s) = Some 0)"
proof -
  have anchors: "\<forall>y x. y \<noteq> [] \<and> CHR ''-'' \<notin> set y \<and> x \<noteq> [] \<and> CHR ''-'' \<notin> set x
        \<longrightarrow> getDefaultSwipeDirections (y @ ''-'' @ x) = [y, x]"
    using default_directions_of_anchors by blast
  have corners:
    "getDefaultSwipeDirections ''top-left'' = [''top'', ''left'']"
    "getDefaultSwipeDirections ''top-right'' = [''top'', ''right'']"
    "getDefaultSwipeDirections ''bottom-left'' = [''bottom'', ''left'']"
    "getDefaultSwipeDirections ''bottom-right'' = [''bottom'', ''right'']"
    by (simp_all add: getDefaultSwipeDirections_def push_if_def)
  have centres:
    "filter is_SwipeDirection (getDefaultSwipeDirections ''top-center'') = [''top'']"
    "filter is_SwipeDirection (getDefaultSwipeDirections ''bottom-center'') = [''bottom'']"
    by (simp_all add: default_directions_center is_SwipeDirection_def)
  have horizontal: "swipe_amount_x (onPointerMove ev hl props s) = Some 0"
    if pos: "position_prop props = ''top-center'' \<or> position_prop props = ''bottom-center''"
      and none: "swipeDirections props = None"
      and start: "pointerStartRef s = Some (px, py)"
      and dis: "truthy (dismissible (toast props))" and hl: "\<not> hl"
    for props s ev hl px py
  proof -
    define dirs where "dirs = (case swipeDirections props of Some ds \<Rightarrow> ds
                 | None \<Rightarrow> getDefaultSwipeDirections (position_prop props))"
    from pos none have "dirs = [''top'', ''center''] \<or> dirs = [''bottom'', ''center'']"
      by (auto simp: dirs_def default_directions_center)
    then have no: "''left'' \<notin> set dirs" "''right'' \<notin> set dirs" by auto
    have "swipe_amount_x (onPointerMove ev hl props s) =
        Some (fst (swipe_amounts (swipeDirection (onPointerMove ev hl props s)) dirs
                (clientX ev - px) (clientY ev - py)))"
      using start dis hl dirs_def by (rule onPointerMove_amounts(1)) simp
    with no show ?thesis by (simp add: swipe_amounts_no_direction)
  qed
  from anchors corners centres horizontal show ?thesis by blast
qed

theorem default_swipe_directions_witness:
  "getDefaultSwipeDirections (''bottom'' @ ''-'' @ ''right'') = [''bottom'', ''right'']
   \<and> position_prop center_props = ''top-center''
   \<and> pointerStartRef (pressed center_props []) = Some (100, 100)
   \<and> swipe_amount_x
        (onPointerMove (pointer_at 110 100) False
           center_props (pressed center_props [])) = Some 0"
proof -
  have a: "getDefaultSwipeDirections (''bottom'' @ ''-'' @ ''right'') = [''bottom'', ''right'']"
    using default_swipe_directions by simp
  have b: "swipe_amount_x
        (onPointerMove (pointer_at 110 100) False
           center_props (pressed center_props [])) = Some 0"
    using default_swipe_directions pressed_center_props(1) center_props_fields by blast
  from a b pressed_center_props(1) center_props_fields show ?thesis by simp
qed

text \<open>
  C6, as amended. During a drag along a locked axis on which at least one direction is
  allowed, when the movement goes towards no allowed direction of that axis, the swipe
  amount written is \<open>dampened = delta / (1.5 + |delta| / 20)\<close> whenever \<open>|dampened| < |delta|\<close>
  and the raw delta otherwise. When no direction of the locked axis is allowed, the amount
  written is \<open>0\<close>. In every case the magnitude of the amount written is at most \<open>|delta|\<close>.
\<close>

theorem dampened_swipe_amount:
  assumes "pointerStartRef s = Some (px, py)" and "truthy (dismissible (toast props))" and "\<not> hl"
    and "dirs = (case swipeDirections props of Some ds \<Rightarrow> ds
                 | None \<Rightarrow> getDefaultSwipeDirections (position_prop props))"
    and "s' = onPointerMove ev hl props s"
    and "xDelta = clientX ev - px" and "yDelta = clientY ev - py"
  shows "(swipeDirection s' = Some AxisY \<and> (''top'' \<in> set dirs \<or> ''bottom'' \<in> set dirs)
            \<and> \<not> (''top'' \<in> set dirs \<and> yDelta < 0) \<and> \<not> (''bottom'' \<in> set dirs \<and> yDelta > 0)
          \<longrightarrow> swipe_amount_y s' =
                Some (if \<bar>spec_dampened yDelta\<bar> < \<bar>yDelta\<bar> then spec_dampened yDelta else yDelta))
       \<and> (swipeDirection s' = Some AxisX \<and> (''left'' \<in> set dirs \<or> ''right'' \<in> set dirs)
            \<and> \<not> (''left'' \<in> set dirs \<and> xDelta < 0) \<and> \<not> (''right'' \<in> set dirs \<and> xDelta > 0)
          \<longrightarrow> swipe_amount_x s' =
                Some (if \<bar>spec_dampened xDelta\<bar> < \<bar>xDelta\<bar> then spec_dampened xDelta else xDelta))
       \<and> (''top'' \<notin> set dirs \<and> ''bottom'' \<notin> set dirs \<longrightarrow> swipe_amount_y s' = Some 0)
       \<and> (''left'' \<notin> set dirs \<and> ''right'' \<notin> set dirs \<longrightarrow> swipe_amount_x s' = Some 0)
       \<and> \<bar>css_number (swipe_amount_x s')\<bar> \<le> \<bar>xDelta\<bar>
       \<and> \<bar>css_number (swipe_amount_y s')\<bar> \<le> \<bar>yDelta\<bar>"
proof -
  have x: "swipe_amount_x s' = Some (fst (swipe_amounts (swipeDirection s') dirs xDelta yDelta))"
    unfolding assms(6,7) using assms(1-5) by (rule onPointerMove_amounts(1))
  have y: "swipe_amount_y s' = Some (snd (swipe_amounts (swipeDirection s') dirs xDelta yDelta))"
    unfolding assms(6,7) using assms(1-5) by (rule onPointerMove_amounts(2))
  have c1: "swipeDirection s' = Some AxisY \<and> (''top'' \<in> set dirs \<or> ''bottom'' \<in> set dirs)
            \<and> \<not> (''top'' \<in> set dirs \<and> yDelta < 0) \<and> \<not> (''bottom'' \<in> set dirs \<and> yDelta > 0)
          \<longrightarrow> swipe_amount_y s' =
                Some (if \<bar>spec_dampened yDelta\<bar> < \<bar>yDelta\<bar> then spec_dampened yDelta else yDelta)"
    using y swipe_amounts_dampened_y [of dirs yDelta xDelta] by simp
  have c2: "swipeDirection s' = Some AxisX \<and> (''left'' \<in> set dirs \<or> ''right'' \<in> set dirs)
            \<and> \<not> (''left'' \<in> set dirs \<and> xDelta < 0) \<and> \<not> (''right'' \<in> set dirs \<and> xDelta > 0)
          \<longrightarrow> swipe_amount_x s' =
                Some (if \<bar>spec_dampened xDelta\<bar> < \<bar>xDelta\<bar> then spec_dampened xDelta else xDelta)"
    using x swipe_amounts_dampened_x [of dirs xDelta yDelta] by simp
  have c3: "''top'' \<notin> set dirs \<and> ''bottom'' \<notin> set dirs \<longrightarrow> swipe_amount_y s' = Some 0"
    using y by (simp add: swipe_amounts_no_direction)
  have c4: "''left'' \<notin> set dirs \<and> ''right'' \<notin> set dirs \<longrightarrow> swipe_amount_x s' = Some 0"
    using x by (simp add: swipe_amounts_no_direction)
  have c5: "\<bar>css_number (swipe_amount_x s')\<bar> \<le> \<bar>xDelta\<bar>"
    using x swipe_amounts_le(1) by (simp add: css_number_def)
  have c6: "\<bar>css_number (swipe_amount_y s')\<bar> \<le> \<bar>yDelta\<bar>"
    using y swipe_amounts_le(2) by (simp add: css_number_def)
  from c1 c2 c3 c4 c5 c6 show ?thesis by blast
qed

theorem dampened_swipe_amount_witness:
  "pointerStartRef (pressed example_props layout_example) = Some (100, 100)
   \<and> getDefaultSwipeDirections (position_prop example_props) = [''bottom'', ''right'']
   \<and> swipeDirection (onPointerMove (pointer_at 90 100) False example_props
         (pressed example_props layout_example)) = Some AxisX
   \<and> swipe_amount_x (onPointerMove (pointer_at 90 100) False example_props
         (pressed example_props layout_example)) = Some (- 5)"
proof -
  define s where "s = pressed example_props layout_example"
  define s' where "s' = onPointerMove (pointer_at 90 100) False example_props s"
  define dirs where "dirs = (case swipeDirections example_props of Some ds \<Rightarrow> ds
                 | None \<Rightarrow> getDefaultSwipeDirections (position_prop example_props))"
  have start: "pointerStartRef s = Some (100, 100)"
    and dis: "truthy (dismissible (toast example_props))"
    by (simp_all add: s_def pressed_example_props example_props_fields)
  have dirs: "dirs = [''bottom'', ''right'']"
    by (simp add: dirs_def example_props_fields getDefaultSwipeDirections_def push_if_def)
  have lock: "swipeDirection s' = Some AxisX"
    using start dis
    by (simp add: s'_def s_def onPointerMove_def Let_def pointer_at_def pressed_example_props
        example_props_fields)
  have xd: "- 10 = clientX (pointer_at 90 100) - 100" and yd: "0 = clientY (pointer_at 90 100) - 100"
    by (simp_all add: pointer_at_def)
  have "swipe_amount_x s' =
      Some (if \<bar>spec_dampened (- 10)\<bar> < \<bar>- 10 :: real\<bar> then spec_dampened (- 10) else - 10)"
    using dampened_swipe_amount [OF start dis _ dirs_def s'_def xd yd] lock dirs by simp
  then have "swipe_amount_x s' = Some (- 5)"
    by (simp add: spec_dampened_def)
  with start lock dirs show ?thesis
    by (simp add: s_def s'_def dirs_def example_props_fields)
qed

text \<open>
  C6 as stated fails where no direction of the locked axis is allowed. A toast at
  \<open>top-center\<close> with the default directions, dragged 10 pixels to the right: the movement
  goes towards no allowed direction and the dampened value 5 is smaller than 10, yet the
  amount written is 0. The same happens when the list of allowed directions is empty, where
  every movement opposes every allowed direction.
\<close>

theorem dampened_swipe_amount_counterexample:
  "spec_opposes_all AxisX 10 (getDefaultSwipeDirections (position_prop center_props))
   \<and> swipeDirections center_props = None
   \<and> clientX (pointer_at 110 100) - 100 = 10
   \<and> swipeDirection (onPointerMove (pointer_at 110 100) False center_props
         (pressed center_props [])) = Some AxisX
   \<and> \<bar>spec_dampened 10\<bar> < \<bar>10 :: real\<bar>
   \<and> spec_dampened 10 = 5
   \<and> swipe_amount_x (onPointerMove (pointer_at 110 100) False center_props
         (pressed center_props [])) = Some 0
   \<and> swipeDirections unswipeable_props = Some []
   \<and> spec_opposes_all AxisX 10 []
   \<and> swipeDirection (onPointerMove (pointer_at 110 100) False unswipeable_props
         (pressed unswipeable_props [])) = Some AxisX
   \<and> swipe_amount_x (onPointerMove (pointer_at 110 100) False unswipeable_props
         (pressed unswipeable_props [])) = Some 0"
proof -
  have "spec_opposes_all AxisX 10 (getDefaultSwipeDirections (position_prop center_props))"
    by (simp add: center_props_fields default_directions_center spec_opposes_all_def
        spec_moves_towards_def)
  moreover have "swipeDirection (onPointerMove (pointer_at 110 100) False center_props
         (pressed center_props [])) = Some AxisX"
    by (simp add: onPointerMove_def pressed_center_props center_props_fields Let_def
        pointer_at_def)
  moreover have "swipe_amount_x (onPointerMove (pointer_at 110 100) False center_props
         (pressed center_props [])) = Some 0"
    by (simp add: onPointerMove_def pressed_center_props center_props_fields Let_def
        pointer_at_def default_directions_center swipe_amounts_def)
  moreover have "\<bar>spec_dampened 10\<bar> < \<bar>10 :: real\<bar>" "spec_dampened 10 = 5"
    by (simp_all add: spec_dampened_def)
  moreover have "swipeDirection (onPointerMove (pointer_at 110 100) False unswipeable_props
         (pressed unswipeable_props [])) = Some AxisX"
    by (simp add: onPointerMove_def pressed_unswipeable_props unswipeable_props_fields Let_def
        pointer_at_def)
  moreover have "swipe_amount_x (onPointerMove (pointer_at 110 100) False unswipeable_props
         (pressed unswipeable_props [])) = Some 0"
    by (simp add: onPointerMove_def pressed_unswipeable_props unswipeable_props_fields Let_def
        pointer_at_def swipe_amounts_def)
  moreover have "spec_opposes_all AxisX 10 []"
    by (simp add: spec_opposes_all_def)
  ultimately show ?thesis
    by (simp add: center_props_fields unswipeable_props_fields pointer_at_def)
qed

text \<open>
  C5. A pointer-up that ends a drag on a dismissible toast not yet swiped out takes the
  swipe amount of the locked axis and the velocity \<open>|amount| / elapsed\<close>. It commits to
  dismissal exactly when \<open>|amount| \<ge> 45\<close> or the velocity exceeds \<open>0.11\<close>: then
  \<open>onDismiss\<close> is invoked once and removal begins. Otherwise both swipe amounts are reset
  to \<open>0\<close>, no callback is invoked and the toast stays as active as it was.
\<close>

theorem pointer_up_commit_or_snap_back:
  assumes "dragStartTime s = Some t0" and "truthy (dismissible (toast props))" and "\<not> swipeOut s"
    and "amount = (if swipeDirection s = Some AxisX then css_number (swipe_amount_x s)
                   else css_number (swipe_amount_y s))"
    and "velocity = js_div \<bar>amount\<bar> (now - t0)"
    and "s' = onPointerUp now props s"
  shows "(swipeOut s' \<longleftrightarrow> \<bar>amount\<bar> \<ge> 45 \<or> gt velocity 0.11)
       \<and> (now \<noteq> t0 \<longrightarrow> gt velocity 0.11 = (\<bar>amount\<bar> / (now - t0) > 0.11))
       \<and> (\<bar>amount\<bar> \<ge> 45 \<or> gt velocity 0.11 \<longrightarrow>
            removed s' \<and> unmounts s' = unmounts s @ [TIME_BEFORE_UNMOUNT]
            \<and> calls s' = calls s @ (if onDismiss (toast props) then [OnDismiss] else []))
       \<and> (\<not> (\<bar>amount\<bar> \<ge> 45 \<or> gt velocity 0.11) \<longrightarrow>
            swipe_amount_x s' = Some 0 \<and> swipe_amount_y s' = Some 0 \<and> calls s' = calls s
            \<and> removed s' = removed s \<and> unmounts s' = unmounts s \<and> heights s' = heights s
            \<and> timeoutId s' = timeoutId s)"
proof (cases "\<bar>amount\<bar> \<ge> SWIPE_THRESHOLD \<or> gt (js_div \<bar>amount\<bar> (now - t0)) 0.11")
  case True
  have v: "now \<noteq> t0 \<longrightarrow> gt velocity 0.11 = (\<bar>amount\<bar> / (now - t0) > 0.11)"
    by (simp add: assms(5) js_div_def)
  from True have c: "\<bar>amount\<bar> \<ge> 45 \<or> gt velocity 0.11"
    by (simp add: assms(5) SWIPE_THRESHOLD_def)
  have "swipeOut s'" "removed s'"
    "calls s' = calls s @ (if onDismiss (toast props) then [OnDismiss] else [])"
    "unmounts s' = unmounts s @ [TIME_BEFORE_UNMOUNT]"
    unfolding assms(6) using assms(1-4) True by (rule onPointerUp_commit)+
  with v c show ?thesis by simp
next
  case False
  have v: "now \<noteq> t0 \<longrightarrow> gt velocity 0.11 = (\<bar>amount\<bar> / (now - t0) > 0.11)"
    by (simp add: assms(5) js_div_def)
  from False have c: "\<not> (\<bar>amount\<bar> \<ge> 45 \<or> gt velocity 0.11)"
    by (simp add: assms(5) SWIPE_THRESHOLD_def)
  have "s' = s\<lparr> pointerStartRef := None, swipe_amount_x := Some 0, swipe_amount_y := Some 0,
              isSwiped := False, swiping := False, swipeDirection := None \<rparr>"
    unfolding assms(6) using assms(1-4) False by (rule onPointerUp_snap_back)
  with v c assms(3) show ?thesis by simp
qed

theorem pointer_up_commit_or_snap_back_witness:
  "dragStartTime (dragged example_props layout_example 150 100) = Some 5000
   \<and> swipe_amount_x (dragged example_props layout_example 150 100) = Some 50
   \<and> swipeOut (onPointerUp 6000 example_props (dragged example_props layout_example 150 100))
   \<and> removed (onPointerUp 6000 example_props (dragged example_props layout_example 150 100))
   \<and> calls (onPointerUp 6000 example_props (dragged example_props layout_example 150 100))
       = [OnDismiss]
   \<and> swipe_amount_x (dragged example_props layout_example 120 100) = Some 20
   \<and> \<not> swipeOut (onPointerUp 6000 example_props (dragged example_props layout_example 120 100))
   \<and> \<not> removed (onPointerUp 6000 example_props (dragged example_props layout_example 120 100))
   \<and> calls (onPointerUp 6000 example_props (dragged example_props layout_example 120 100)) = []
   \<and> swipe_amount_x
        (onPointerUp 6000 example_props (dragged example_props layout_example 120 100)) = Some 0"
proof -
  define a where "a = dragged example_props layout_example 150 100"
  define b where "b = dragged example_props layout_example 120 100"
  have a: "dragStartTime a = Some 5000" "\<not> swipeOut a" "swipe_amount_x a = Some 50"
    "swipeDirection a = Some AxisX" "calls a = []" "\<not> removed a"
    unfolding a_def dragged_example_50 by simp_all
  have b: "dragStartTime b = Some 5000" "\<not> swipeOut b" "swipe_amount_x b = Some 20"
    "swipeDirection b = Some AxisX" "calls b = []" "\<not> removed b"
    unfolding b_def dragged_example_20 by simp_all
  have dis: "truthy (dismissible (toast example_props))" "onDismiss (toast example_props)"
    by (simp_all add: example_props_eval)
  have amount_a: "50 = (if swipeDirection a = Some AxisX then css_number (swipe_amount_x a)
                   else css_number (swipe_amount_y a))"
    by (simp add: a css_number_def)
  have amount_b: "20 = (if swipeDirection b = Some AxisX then css_number (swipe_amount_x b)
                   else css_number (swipe_amount_y b))"
    by (simp add: b css_number_def)
  have ra: "swipeOut (onPointerUp 6000 example_props a)
      \<and> removed (onPointerUp 6000 example_props a)
      \<and> calls (onPointerUp 6000 example_props a) = [OnDismiss]"
    using pointer_up_commit_or_snap_back [OF a(1) dis(1) a(2) amount_a refl refl, of 6000]
      a(5) dis(2) by simp
  have rb: "\<not> swipeOut (onPointerUp 6000 example_props b)
      \<and> \<not> removed (onPointerUp 6000 example_props b)
      \<and> calls (onPointerUp 6000 example_props b) = []
      \<and> swipe_amount_x (onPointerUp 6000 example_props b) = Some 0"
    using pointer_up_commit_or_snap_back [OF b(1) dis(1) b(2) amount_b refl refl, of 6000]
      b(5,6) by (simp add: js_div_def)
  from a(1,3) b(3) ra rb show ?thesis unfolding a_def b_def by simp
qed

section \<open>Timer properties\<close>

text \<open>
  C3. The timer effect conserves the remaining time only while every resume carries a later
  millisecond timestamp than the pause before it: \<^verbatim>\<open>pauseTimer\<close> subtracts the time run
  when \<^verbatim>\<open>lastCloseTimerStartTimeRef < closeTimerStartTimeRef\<close>, and a resume in the
  millisecond of the pause makes the two equal. The example toast of 4000 ms runs from
  10000 to 11000, so 3000 ms remain. Paused and resumed within the millisecond 11000, it
  runs 500 ms more and is paused at 11500, where nothing is subtracted: the resume at 12000
  gives the timeout a delay of 3000 ms, not 2500, and \<open>onAutoClose\<close> is invoked when that
  expires, after 3500 ms of unpaused time since the first pause. With the resume one
  millisecond later the delay is 2500 ms, as C3 states.
\<close>

theorem tied_resume_loses_running_time:
  "remainingTime (run (cycle_events example_props hovered_props [(10000, 11000)])
       (mounted_Toast example_props layout_example)) = Num 3000
   \<and> running_time [(11000, 11500)] = 500
   \<and> remainingTime (run tied_resume (mounted_Toast example_props layout_example)) = Num 3000
   \<and> timeoutId (run tied_resume (mounted_Toast example_props layout_example)) = Some (Num 3000)
   \<and> calls (run (tied_resume @ [(example_props, Timeout)])
        (mounted_Toast example_props layout_example)) = [OnAutoClose]
   \<and> running_time [(11001, 11501)] = 500
   \<and> timeoutId (run later_resume (mounted_Toast example_props layout_example)) = Some (Num 2500)"
  by (simp add: tied_resume_def later_resume_def timer_effect_running timer_effect_paused
      example_props_timed startTimer_def pauseTimer_def Let_def mounted_example_timer
      timeout_callback_def call_onAutoClose_def deleteToast_fields example_toast_type)

text \<open>
  C4. The auto-close timer is started only with a finite remaining time on a toast that
  is not loading and whose duration is not \<^verbatim>\<open>Infinity\<close>: \<^verbatim>\<open>startTimer\<close> does nothing
  when the remaining time is infinite, so the infinite delay never reaches
  \<^verbatim>\<open>setTimeout\<close>. While the duration is infinite or the type is loading, no timeout is
  ever pending and \<open>onAutoClose\<close> is never invoked, whatever events arrive and whenever.
  On no trace of any toast does a pending timeout hold an infinite delay.
\<close>

theorem infinite_or_loading_never_auto_closes:
  "(remainingTime s = Infinity \<longrightarrow> startTimer now s = s)
   \<and> (timeoutId (timer_effect now props s) = Some delay \<longrightarrow>
        delay \<noteq> Infinity \<and> remainingTime (timer_effect now props s) = delay
        \<and> duration (toast props) \<noteq> Some Infinity \<and> \<not> isLoading props)
   \<and> (timeoutId s = None
        \<and> (remainingTime s = Infinity
            \<or> list_all (\<lambda>(props, e). duration (toast props) = Some Infinity \<or> isLoading props) es)
        \<longrightarrow> timeoutId (run es s) = None
            \<and> invocations OnAutoClose (run es s) = invocations OnAutoClose s)
   \<and> (initial_remainingTime new_props = Infinity
        \<or> list_all (\<lambda>(props, e). duration (toast props) = Some Infinity \<or> isLoading props) es
        \<longrightarrow> invocations OnAutoClose (run es (new_Toast new_props hs)) = 0)
   \<and> timeoutId (run es (new_Toast new_props hs)) \<noteq> Some Infinity"
proof -
  have a: "remainingTime s = Infinity \<longrightarrow> startTimer now s = s"
    by (simp add: startTimer_Infinity)
  have b: "timeoutId (timer_effect now props s) = Some delay \<longrightarrow>
        delay \<noteq> Infinity \<and> remainingTime (timer_effect now props s) = delay
        \<and> duration (toast props) \<noteq> Some Infinity \<and> \<not> isLoading props"
    using timer_effect_scheduled [of now props s delay] by (auto simp: timed_def)
  have untimed: "(\<lambda>(props, e). duration (toast props) = Some Infinity \<or> isLoading props)
      = (\<lambda>(props, e :: event). \<not> timed props)"
    by (auto simp: timed_def fun_eq_iff)
  have c: "timeoutId t = None
        \<and> (remainingTime t = Infinity
            \<or> list_all (\<lambda>(props, e). duration (toast props) = Some Infinity \<or> isLoading props) es)
        \<longrightarrow> timeoutId (run es t) = None
            \<and> invocations OnAutoClose (run es t) = invocations OnAutoClose t" for t
    unfolding untimed using run_keeps_idle [of t es] by blast
  have d: "initial_remainingTime new_props = Infinity
        \<or> list_all (\<lambda>(props, e). duration (toast props) = Some Infinity \<or> isLoading props) es
        \<longrightarrow> invocations OnAutoClose (run es (new_Toast new_props hs)) = 0"
    using c [of "new_Toast new_props hs"] by (simp add: new_Toast_fields invocations_def)
  have e: "timeoutId (run es (new_Toast new_props hs)) \<noteq> Some Infinity"
    by (rule run_finite_delay) (simp add: new_Toast_fields)
  from a b c [of s] d e show ?thesis by blast
qed

theorem infinite_or_loading_never_auto_closes_witness:
  "initial_remainingTime infinite_props = Infinity
   \<and> invocations OnAutoClose (run (watched infinite_props) (new_Toast infinite_props layout_example)) = 0
   \<and> isLoading loading_props
   \<and> invocations OnAutoClose (run (watched loading_props) (new_Toast loading_props layout_example)) = 0"
proof -
  have "list_all (\<lambda>(props, e). duration (toast props) = Some Infinity \<or> isLoading props)
      (watched loading_props)"
    using untimed_props(3,4) by (simp add: watched_def timed_def)
  then have "invocations OnAutoClose (run (watched loading_props) (new_Toast loading_props layout_example)) = 0"
    using infinite_or_loading_never_auto_closes
      [where es = "watched loading_props" and new_props = loading_props
        and hs = layout_example]
    by blast
  moreover have "invocations OnAutoClose (run (watched infinite_props) (new_Toast infinite_props layout_example)) = 0"
    using infinite_or_loading_never_auto_closes
      [where es = "watched infinite_props" and new_props = infinite_props
        and hs = layout_example] untimed_props(5)
    by blast
  ultimately show ?thesis using untimed_props(5,6) by simp
qed

section \<open>Lifecycle properties\<close>

text \<open>
  C7. The offset captured when the removal begins does not stay. The second toast of the
  stack is shown at 54. Dismissed through its delete flag, the delete effect captures 54
  and removes the height entry of the toast, the offset becomes \<open>-14\<close>, and the effect,
  which depends on the offset, runs again: the toast reports \<open>-14\<close> from the start of its
  grace period and two \<^verbatim>\<open>removeToast\<close> timeouts are pending. Dismissed by a click on the
  close button it reports 54, until a pointer-down on the toast within the grace period
  runs \<^verbatim>\<open>setOffsetBeforeRemove(offset())\<close> again and it reports \<open>-14\<close>.
\<close>

theorem exit_offset_captured_again:
  "current_offset dismissed_props (mounted_Toast example_props layout_example) = 54
   \<and> removed (run flag_dismissal (mounted_Toast example_props layout_example))
   \<and> reported_offset dismissed_props
        (run flag_dismissal (mounted_Toast example_props layout_example)) = - 14
   \<and> unmounts (run flag_dismissal (mounted_Toast example_props layout_example)) = [200, 200]
   \<and> removed (run (take 1 close_then_press) (mounted_Toast example_props layout_example))
   \<and> reported_offset example_props
        (run (take 1 close_then_press) (mounted_Toast example_props layout_example)) = 54
   \<and> reported_offset example_props
        (run close_then_press (mounted_Toast example_props layout_example)) = - 14"
proof -
  define m where "m = mounted_Toast example_props layout_example"
  have d: "current_offset dismissed_props m = 54"
    "current_offset dismissed_props (deleteToast dismissed_props m) = - 14"
    unfolding m_def by (rule example_offsets [OF dismissed_props_fields(1-3)])+
  have e: "current_offset example_props m = 54"
    "current_offset example_props (deleteToast example_props m) = - 14"
    unfolding m_def by (rule example_offsets [OF example_toast_type(4,5,6)])+
  have u: "unmounts m = []"
    unfolding m_def mounted_example_eval by simp
  have flag: "removed (run flag_dismissal m)"
    "reported_offset dismissed_props (run flag_dismissal m) = - 14"
    "unmounts (run flag_dismissal m) = [200, 200]"
    unfolding m_def flag_dismissal_eval
    using d u by (simp_all add: reported_offset_def deleteToast_fields m_def TIME_BEFORE_UNMOUNT_def)
  have h: "heights (call_onDismiss example_props (deleteToast example_props m))
      = heights (deleteToast example_props m)"
    by (simp add: call_onDismiss_def)
  have click: "removed (run (take 1 close_then_press) m)"
    "reported_offset example_props (run (take 1 close_then_press) m) = 54"
    unfolding m_def close_then_press_eval
    using e by (simp_all add: reported_offset_def call_onDismiss_def deleteToast_fields m_def)
  have press: "reported_offset example_props (run close_then_press m) = - 14"
    unfolding m_def close_then_press_eval
    using e current_offset_cong [OF h]
    by (simp add: reported_offset_def onPointerDown_def isLoading_def Let_def
        example_props_fields example_toast_type call_onDismiss_def deleteToast_fields m_def)
  from d(1) flag click press show ?thesis by (simp add: m_def)
qed

text \<open>
  C9, as amended. Each expiry of the timer invokes \<open>onAutoClose\<close> at most once and
  nothing else does; each click on the close button invokes \<open>onDismiss\<close> at most once; all
  swipe commits of an instance together invoke \<open>onDismiss\<close> at most once, since a pointer-up
  does nothing once \<open>swipeOut\<close> is set; the cancel and action buttons and the delete
  flag invoke neither callback. So on every trace the invocations of \<open>onAutoClose\<close> are at
  most the timer expiries, and those of \<open>onDismiss\<close> at most the close clicks plus one.
\<close>

theorem callbacks_bounded_by_their_triggers:
  "invocations OnAutoClose (run es (new_Toast props hs)) \<le> occurrences Timeout es
   \<and> invocations OnDismiss (run es (new_Toast props hs))
       \<le> occurrences CloseClick es + (if swipeOut (run es (new_Toast props hs)) then 1 else 0)
   \<and> (swipeOut s \<longrightarrow> onPointerUp now props s = s)
   \<and> calls (cancel_click props s) = calls s
   \<and> calls (action_click defaultPrevented props s) = calls s
   \<and> calls (delete_effect props s) = calls s"
proof -
  have b: "invocations OnAutoClose (run es (new_Toast props hs))
        \<le> invocations OnAutoClose (new_Toast props hs) + occurrences Timeout es"
    "dismiss_budget (run es (new_Toast props hs))
        \<le> dismiss_budget (new_Toast props hs) + occurrences CloseClick es"
    using run_callback_bounds [of es "new_Toast props hs"] by simp_all
  have a: "invocations OnAutoClose (run es (new_Toast props hs)) \<le> occurrences Timeout es"
    using b(1) by (simp add: invocations_def new_Toast_fields)
  have "dismiss_budget (new_Toast props hs) = 1"
    by (simp add: dismiss_budget_def invocations_def new_Toast_fields)
  with b(2) have d: "invocations OnDismiss (run es (new_Toast props hs))
       \<le> occurrences CloseClick es + (if swipeOut (run es (new_Toast props hs)) then 1 else 0)"
    by (simp add: dismiss_budget_def split: if_splits)
  have u: "swipeOut s \<longrightarrow> onPointerUp now props s = s"
    by (simp add: onPointerUp_def split: option.split)
  from a d u show ?thesis
    by (simp add: cancel_click_fields action_click_fields delete_effect_fields)
qed

theorem callbacks_bounded_by_their_triggers_witness:
  "occurrences CloseClick swipe_trace = 0 \<and> occurrences Timeout swipe_trace = 0
   \<and> calls (run swipe_trace (new_Toast example_props layout_example)) = [OnDismiss]
   \<and> invocations OnDismiss (run swipe_trace (new_Toast example_props layout_example)) \<le> 1
   \<and> invocations OnAutoClose (run swipe_trace (new_Toast example_props layout_example)) = 0"
proof -
  have o: "occurrences CloseClick swipe_trace = 0" "occurrences Timeout swipe_trace = 0"
    by (simp_all add: occurrences_def swipe_trace_def)
  have c: "calls (run swipe_trace (new_Toast example_props layout_example)) = [OnDismiss]"
    by (rule swipe_trace_calls)
  have "invocations OnAutoClose (run swipe_trace (new_Toast example_props layout_example))
      \<le> occurrences Timeout swipe_trace"
    using callbacks_bounded_by_their_triggers [of swipe_trace example_props layout_example]
    by blast
  with o c show ?thesis by (simp add: invocations_def)
qed

text \<open>
  C9 as stated fails. Two clicks on the close button within the grace period invoke
  \<open>onDismiss\<close> twice, and a click on the close button after the timer has expired invokes
  \<open>onDismiss\<close> on an instance whose \<open>onAutoClose\<close> has already run.
\<close>

theorem callbacks_at_most_once_counterexample:
  "calls (run double_close_trace (new_Toast example_props layout_example))
     = [OnDismiss, OnDismiss]
   \<and> calls (run expire_then_close_trace (new_Toast example_props layout_example))
     = [OnAutoClose, OnDismiss]"
  by (simp add: double_close_trace_def expire_then_close_trace_def close_click_def
      call_onDismiss_def call_onAutoClose_def deleteToast_fields isLoading_def
      example_props_fields example_toast_type onMount_fields timer_effect_running
      example_props_timed startTimer_def timeout_callback_def new_Toast_fields
      initial_remainingTime_def example_props_duration)

section \<open>Registry properties\<close>

text \<open>
  C1. Publishing a record whose id is already among the toasts of a subscriber leaves
  exactly one record with that id. In the list of \<^verbatim>\<open>useSonner\<close> its fields are the
  field-wise merge of the prior record and the record delivered: every field the new one
  specifies takes precedence and every other field is retained. In the store of the
  \<^verbatim>\<open>Toaster\<close> the record delivered replaces the prior one, and the registry delivers the
  merged record. The ids of the list stay as they were, and whatever notifications arrive,
  from the empty list on, the ids of either list are distinct: there is never a duplicate.
  Each subscriber is notified once per publish: two publishes of one id give two
  notifications, the second being the merge of both.
\<close>

theorem republish_merges_into_one_record:
  "(distinct (map (\<lambda>t. property t ''id'') toasts) \<and> old \<in> set toasts
      \<and> property old ''id'' = property toast' ''id'' \<and> \<not> truthy_val (property toast' ''dismiss'')
     \<longrightarrow> with_id_of toast' (useSonner_subscriber toast' toasts) = [spread old toast']
       \<and> with_id_of toast' (Toaster_subscriber toast' toasts) = [reconcile toast' old]
       \<and> map (\<lambda>t. property t ''id'') (useSonner_subscriber toast' toasts)
           = map (\<lambda>t. property t ''id'') toasts
       \<and> map (\<lambda>t. property t ''id'') (Toaster_subscriber toast' toasts)
           = map (\<lambda>t. property t ''id'') toasts)
   \<and> (\<forall>k. property (spread old toast') k
            = (case toast' k of Some v \<Rightarrow> v | None \<Rightarrow> property old k))
   \<and> (\<forall>k. property (reconcile toast' old) k = property toast' k)
   \<and> (with_id_of p (records sys) = [] \<and> with_id_of p (activeToasts sys) = []
      \<and> with_id_of p (toastsStore sys) = [] \<and> property p ''id'' = property q ''id''
      \<and> \<not> truthy_val (property p ''dismiss'') \<and> \<not> truthy_val (property q ''dismiss'')
     \<longrightarrow> useSonner_received (publish q (publish p sys)) = useSonner_received sys @ [p, spread p q]
       \<and> Toaster_received (publish q (publish p sys)) = Toaster_received sys @ [p, spread p q]
       \<and> with_id_of q (activeToasts (publish q (publish p sys))) = [spread p q]
       \<and> with_id_of q (toastsStore (publish q (publish p sys))) = [reconcile (spread p q) p]
       \<and> (\<forall>k. property (reconcile (spread p q) p) k
                = (case q k of Some v \<Rightarrow> v | None \<Rightarrow> property p k)))
   \<and> distinct (map (\<lambda>t. property t ''id'') (fold useSonner_subscriber messages []))
   \<and> distinct (map (\<lambda>t. property t ''id'') (fold Toaster_subscriber messages []))"
proof -
  have handlers: "with_id_of toast' (useSonner_subscriber toast' toasts) = [spread old toast']
       \<and> with_id_of toast' (Toaster_subscriber toast' toasts) = [reconcile toast' old]
       \<and> map (\<lambda>t. property t ''id'') (useSonner_subscriber toast' toasts)
           = map (\<lambda>t. property t ''id'') toasts
       \<and> map (\<lambda>t. property t ''id'') (Toaster_subscriber toast' toasts)
           = map (\<lambda>t. property t ''id'') toasts"
    if "distinct (map (\<lambda>t. property t ''id'') toasts)" "old \<in> set toasts"
      "property old ''id'' = property toast' ''id''" "\<not> truthy_val (property toast' ''dismiss'')"
    using useSonner_subscriber_update [OF that] Toaster_subscriber_update [OF that] by simp
  have merge: "\<forall>k. property (spread old toast') k
            = (case toast' k of Some v \<Rightarrow> v | None \<Rightarrow> property old k)"
    by (simp add: property_spread)
  have replace: "\<forall>k. property (reconcile toast' old) k = property toast' k"
    by (simp add: property_reconcile)
  have twice: "useSonner_received (publish q (publish p sys)) = useSonner_received sys @ [p, spread p q]
       \<and> Toaster_received (publish q (publish p sys)) = Toaster_received sys @ [p, spread p q]
       \<and> with_id_of q (activeToasts (publish q (publish p sys))) = [spread p q]
       \<and> with_id_of q (toastsStore (publish q (publish p sys))) = [reconcile (spread p q) p]
       \<and> (\<forall>k. property (reconcile (spread p q) p) k
                = (case q k of Some v \<Rightarrow> v | None \<Rightarrow> property p k))"
    if absent: "with_id_of p (records sys) = []" "with_id_of p (activeToasts sys) = []"
      "with_id_of p (toastsStore sys) = []"
      and same: "property p ''id'' = property q ''id''"
      and nd: "\<not> truthy_val (property p ''dismiss'')" "\<not> truthy_val (property q ''dismiss'')"
  proof -
    have pq: "with_id_of q xs = with_id_of p xs" for xs
      by (simp add: with_id_of_def same)
    have first: "publish p sys =
           \<lparr> records = records sys @ [p], activeToasts = p # activeToasts sys,
             toastsStore = p # toastsStore sys,
             useSonner_received = useSonner_received sys @ [p],
             Toaster_received = Toaster_received sys @ [p] \<rparr>"
      using absent nd(1) by (rule publish_new)
    have second: "publish q (publish p sys) =
           \<lparr> records = records sys @ [spread p q],
             activeToasts = spread p (spread p q) # activeToasts sys,
             toastsStore = reconcile (spread p q) p # toastsStore sys,
             useSonner_received = (useSonner_received sys @ [p]) @ [spread p q],
             Toaster_received = (Toaster_received sys @ [p]) @ [spread p q] \<rparr>"
      unfolding first using absent same nd by (intro publish_again) (simp_all add: pq)
    have ids: "property (spread p q) ''id'' = property q ''id''"
      "property (reconcile (spread p q) p) ''id'' = property q ''id''"
      using same by (simp_all add: spread_id property_reconcile)
    show ?thesis
      unfolding second using absent ids
      by (simp add: with_id_of_def spread_twice same property_reconcile property_spread)
  qed
  have never: "distinct (map (\<lambda>t. property t ''id'') (fold useSonner_subscriber messages []))"
    "distinct (map (\<lambda>t. property t ''id'') (fold Toaster_subscriber messages []))"
    using subscribers_never_duplicate [of "[]" messages] by simp_all
  from handlers merge replace twice never show ?thesis by blast
qed

theorem republish_merges_into_one_record_witness:
  "useSonner_received (publish second_publish (publish first_publish one_toast_shown))
     = [other_toast, first_publish, spread first_publish second_publish]
   \<and> with_id_of second_publish
        (activeToasts (publish second_publish (publish first_publish one_toast_shown)))
     = [spread first_publish second_publish]
   \<and> map (property (spread first_publish second_publish))
        [''id'', ''title'', ''type'', ''duration'']
     = [JNumber 7, JString ''Saving'', JString ''success'', JNumber 2000]"
proof -
  have absent: "with_id_of first_publish (records one_toast_shown) = []"
    "with_id_of first_publish (activeToasts one_toast_shown) = []"
    "with_id_of first_publish (toastsStore one_toast_shown) = []"
    by (simp_all add: with_id_of_def one_toast_shown_def other_toast_def first_publish_def
        property_def)
  have same: "property first_publish ''id'' = property second_publish ''id''"
    by (simp add: first_publish_def second_publish_def property_def)
  have nd: "\<not> truthy_val (property first_publish ''dismiss'')"
    "\<not> truthy_val (property second_publish ''dismiss'')"
    by (simp_all add: first_publish_def second_publish_def property_def)
  have r: "useSonner_received (publish second_publish (publish first_publish one_toast_shown))
       = useSonner_received one_toast_shown @ [first_publish, spread first_publish second_publish]
     \<and> with_id_of second_publish
        (activeToasts (publish second_publish (publish first_publish one_toast_shown)))
       = [spread first_publish second_publish]"
    using republish_merges_into_one_record
      [where p = first_publish and q = second_publish and sys = one_toast_shown]
      absent same nd by blast
  have fields: "map (property (spread first_publish second_publish))
        [''id'', ''title'', ''type'', ''duration'']
     = [JNumber 7, JString ''Saving'', JString ''success'', JNumber 2000]"
    by (simp add: property_spread) (simp add: first_publish_def second_publish_def property_def)
  from r fields show ?thesis by (simp add: one_toast_shown_def)
qed

end
